theory Spec2Isabelle
  imports Complex_Main
begin

section \<open>Python values used by the extractor\<close>

text \<open>
  The program is \<^verbatim>\<open>src/src/preprocessor/json_context_extractor.py\<close> (class
  \<^verbatim>\<open>JSONContextExtractor\<close>) together with its store client
  \<^verbatim>\<open>src/database/supabase_manager.py\<close>. Exceptions are values of \<open>py_error\<close>; a function
  that can raise returns \<open>py_error + 'a\<close> with \<open>Inl\<close> for the exception.
\<close>

datatype py_error = ValueError | KeyError | TypeError

subsection \<open>Slices and ranges\<close>

text \<open>
  \<^verbatim>\<open>xs[i:j]\<close> for arbitrary integers: a negative bound counts from the end, and both bounds
  are clipped to the list.
\<close>

definition py_clip :: "nat \<Rightarrow> int \<Rightarrow> nat" where
  "py_clip n i = (if i < 0 then nat (max (i + int n) 0) else min (nat i) n)"

definition py_slice :: "'a list \<Rightarrow> int \<Rightarrow> int \<Rightarrow> 'a list" where
  "py_slice xs i j =
     (let start = py_clip (length xs) i; stop = py_clip (length xs) j
      in take (stop - start) (drop start xs))"

text \<open>
  \<^verbatim>\<open>range(0, n, step)\<close> for a length \<open>n\<close>: a zero step raises \<^verbatim>\<open>ValueError\<close>, a negative
  step gives the empty range (the start 0 is not above the stop), a positive step gives
  \<open>0, step, 2 * step, \<dots>\<close> below \<open>n\<close>.
\<close>

definition py_range0 :: "nat \<Rightarrow> int \<Rightarrow> py_error + int list" where
  "py_range0 n step =
     (if step = 0 then Inl ValueError
      else if step < 0 then Inr []
      else Inr (map (\<lambda>k. int k * step) [0 ..< nat ((int n + step - 1) div step)]))"

subsection \<open>Strings\<close>

text \<open>
  Python strings are modelled as \<open>string\<close> over the ASCII range. \<^verbatim>\<open>str.lower\<close> maps
  \<^verbatim>\<open>A\<close>--\<^verbatim>\<open>Z\<close> to \<^verbatim>\<open>a\<close>--\<^verbatim>\<open>z\<close>; \<^verbatim>\<open>str.strip\<close> removes leading and trailing
  white space (tab, line feed, vertical tab, form feed, carriage return, the separators
  \<^verbatim>\<open>0x1c\<close>--\<^verbatim>\<open>0x1f\<close> and the blank).
\<close>

definition py_lower_char :: "char \<Rightarrow> char" where
  "py_lower_char c =
     (case map_of (zip ''ABCDEFGHIJKLMNOPQRSTUVWXYZ'' ''abcdefghijklmnopqrstuvwxyz'') c of
        None \<Rightarrow> c
      | Some d \<Rightarrow> d)"

definition py_lower :: "string \<Rightarrow> string" where
  "py_lower s = map py_lower_char s"

definition py_isspace :: "char \<Rightarrow> bool" where
  "py_isspace c =
     (c \<in> set [CHR 0x09, CHR 0x0A, CHR 0x0B, CHR 0x0C, CHR 0x0D,
                CHR 0x1C, CHR 0x1D, CHR 0x1E, CHR 0x1F, CHR 0x20])"

definition py_strip :: "string \<Rightarrow> string" where
  "py_strip s = rev (dropWhile py_isspace (rev (dropWhile py_isspace s)))"

subsection \<open>Dictionaries\<close>

text \<open>
  A Python \<^verbatim>\<open>dict\<close> keeps its keys in insertion order, and the program iterates over
  \<^verbatim>\<open>items()\<close>; it is modelled as an association list with distinct keys. \<open>dict_set\<close> is
  \<^verbatim>\<open>d[k] = v\<close>: an existing key keeps its position, a new key goes to the end.
\<close>

type_synonym ('k, 'v) pydict = "('k \<times> 'v) list"

fun dict_set :: "'k \<Rightarrow> 'v \<Rightarrow> ('k, 'v) pydict \<Rightarrow> ('k, 'v) pydict" where
  "dict_set k v [] = [(k, v)]"
| "dict_set k v ((k', v') # d) = (if k = k' then (k, v) # d else (k', v') # dict_set k v d)"

definition dict_get :: "('k, 'v) pydict \<Rightarrow> 'k \<Rightarrow> 'v option" where
  "dict_get d k = map_of d k"

definition dict_contains :: "'k \<Rightarrow> ('k, 'v) pydict \<Rightarrow> bool" where
  "dict_contains k d = (k \<in> set (map fst d))"

text \<open>\<^verbatim>\<open>d[k].append(x)\<close> for a dictionary of lists that has the key \<open>k\<close>.\<close>

definition dict_append :: "'k \<Rightarrow> 'a \<Rightarrow> ('k, 'a list) pydict \<Rightarrow> ('k, 'a list) pydict" where
  "dict_append k x d = (case dict_get d k of None \<Rightarrow> d | Some xs \<Rightarrow> dict_set k (xs @ [x]) d)"

section \<open>Data model\<close>

text \<open>
  A fact candidate is the JSON object the extraction prompt prescribes:
  \<^verbatim>\<open>{"detail": {"type", "value"}, "confidence", "evidence": [...], "timestamp",
  "ownership_reason"}\<close>. The keys \<^verbatim>\<open>detail.type\<close>, \<^verbatim>\<open>detail.value\<close>, \<^verbatim>\<open>confidence\<close> and
  \<^verbatim>\<open>evidence\<close> are read by subscript in every function after the Validator, so a candidate
  is a record that has them; the confidence is the rational value of the parsed number.
  An evidence item is only ever read with \<^verbatim>\<open>get\<close>, so each of its keys is optional
  (\<^verbatim>\<open>message_snippet\<close> is the extraction format, \<^verbatim>\<open>snippet\<close> the deduplication format).
\<close>

record evidence_item =
  message_id :: "string option"
  message_snippet :: "string option"
  snippet :: "string option"

record detail =
  dtype :: string
  dvalue :: string

record node =
  detail :: detail
  confidence :: rat
  evidence :: "evidence_item list"
  timestamp :: "string option"
  ownership_reason :: "string option"

text \<open>
  An element of a layer's list in the raw extraction result: either a candidate, or
  something the Validator skips (not a \<^verbatim>\<open>dict\<close>, or a \<^verbatim>\<open>dict\<close> without \<^verbatim>\<open>detail\<close>).
\<close>

datatype raw_node = NotANode | Node node

section \<open>The Chunker\<close>

text \<open>
  \<^verbatim>\<open>chunk_messages\<close> (lines 39--54). The body of the \<^verbatim>\<open>for\<close> loop is \<open>chunk_loop\<close>, which
  walks the indices of the range and stops at the \<^verbatim>\<open>break\<close>.
\<close>

fun chunk_loop :: "'a list \<Rightarrow> int \<Rightarrow> int list \<Rightarrow> 'a list list \<Rightarrow> 'a list list" where
  "chunk_loop messages chunk_size [] chunks = chunks"
| "chunk_loop messages chunk_size (i # is) chunks =
     (let chunk = py_slice messages i (i + chunk_size);
          chunks' = (if chunk \<noteq> [] then chunks @ [chunk] else chunks)
      in if i + chunk_size \<ge> int (length messages) then chunks'
         else chunk_loop messages chunk_size is chunks')"

definition chunk_messages :: "int \<Rightarrow> int \<Rightarrow> 'a list \<Rightarrow> py_error + 'a list list" where
  "chunk_messages chunk_size overlap_size messages =
     (if messages = [] then Inr []
      else case py_range0 (length messages) (chunk_size - overlap_size) of
             Inl e \<Rightarrow> Inl e
           | Inr is \<Rightarrow> Inr (chunk_loop messages chunk_size is []))"


text \<open>The \<open>k\<close>-th window of \<open>sz\<close> messages when windows start every \<open>st\<close> messages.\<close>

definition window :: "nat \<Rightarrow> nat \<Rightarrow> 'a list \<Rightarrow> nat \<Rightarrow> 'a list" where
  "window sz st xs k = take sz (drop (k * st) xs)"

section \<open>The Extraction Validator\<close>

text \<open>\<^verbatim>\<open>_validate_extractions\<close> (lines 232--297).\<close>

definition invalid_relationship_values :: "string list" where
  "invalid_relationship_values =
     [''wife'', ''husband'', ''nephew'', ''niece'', ''son'', ''daughter'', ''brother'', ''sister'',
      ''mother'', ''father'', ''aunt'', ''uncle'', ''cousin'', ''friend'', ''colleague'']"

definition invalid_evidence_patterns :: "string list" where
  "invalid_evidence_patterns =
     [''thanks guys'', ''thank you'', ''thanks'', ''ok'', ''okay'', ''yes'', ''no'',
      ''sure'', ''great'', ''perfect'', ''sounds good'', ''alright'']"

definition relationship_types :: "string list" where
  "relationship_types = [''relationship'', ''family_member'', ''spouse'']"

definition travel_types :: "string list" where
  "travel_types = [''travel_plan'', ''flight_number'', ''travel_date'']"

text \<open>
  The loop over the evidence (lines 269--274): whether it sets \<^verbatim>\<open>skip_node\<close>. It stops at
  the first snippet that is one of the patterns.
\<close>

fun invalid_evidence :: "evidence_item list \<Rightarrow> bool" where
  "invalid_evidence [] = False"
| "invalid_evidence (ev # evs) =
     (let snippet = py_strip (py_lower (case message_snippet ev of None \<Rightarrow> [] | Some t \<Rightarrow> t))
      in if snippet \<in> set invalid_evidence_patterns then True else invalid_evidence evs)"

text \<open>
  One iteration of the loop over a layer's nodes (lines 251--292), on the state
  \<open>(validated_data, validated_nodes)\<close>. The \<^verbatim>\<open>continue\<close> of the travel branch leaves the
  iteration before the confidence check and before \<^verbatim>\<open>skip_node\<close> is looked at.
\<close>

definition validate_node ::
  "string \<Rightarrow> (string, node list) pydict \<times> node list \<Rightarrow> raw_node
     \<Rightarrow> (string, node list) pydict \<times> node list" where
  "validate_node layer st rn =
     (case st of (validated_data, validated_nodes) \<Rightarrow>
      (case rn of
         NotANode \<Rightarrow> (validated_data, validated_nodes)
       | Node n \<Rightarrow>
          (let fact_type = dtype (detail n);
               fact_value = py_strip (py_lower (dvalue (detail n)));
               skip_node = (fact_type \<in> set relationship_types
                              \<and> fact_value \<in> set invalid_relationship_values);
               skip_node = (skip_node \<or> invalid_evidence (evidence n))
           in if layer = ''Layer1'' \<and> fact_type \<in> set travel_types then
                (let validated_data =
                       (if \<not> dict_contains ''Layer4'' validated_data
                        then dict_set ''Layer4'' [] validated_data else validated_data)
                 in (dict_append ''Layer4'' n validated_data, validated_nodes))
              else
                (let skip_node = (skip_node \<or> confidence n < 3 / 4)
                 in (validated_data,
                     if \<not> skip_node then validated_nodes @ [n] else validated_nodes)))))"

text \<open>One iteration of the loop over the layers (lines 248--295).\<close>

definition validate_layer ::
  "(string, node list) pydict \<Rightarrow> string \<times> raw_node list \<Rightarrow> (string, node list) pydict" where
  "validate_layer validated_data item =
     (case item of (layer, nodes) \<Rightarrow>
      (case foldl (validate_node layer) (validated_data, []) nodes of
         (validated_data, validated_nodes) \<Rightarrow>
           if validated_nodes \<noteq> [] then dict_set layer validated_nodes validated_data
           else validated_data))"

definition validate_extractions ::
  "(string, raw_node list) pydict \<Rightarrow> (string, node list) pydict" where
  "validate_extractions raw_data = foldl validate_layer [] raw_data"

text \<open>
  Predicates for the statements about the Validator. A value is a bare relation word when
  it is one of the fifteen words, whatever its case. \<open>node_ok\<close> is the negation of the test
  of line 264; \<open>survives\<close> collects the tests a candidate outside the travel branch has to
  pass; \<open>has_node\<close> says that a dictionary lists a candidate under a layer.
\<close>

definition bare_relation_word :: "string \<Rightarrow> bool" where
  "bare_relation_word v = (py_lower v \<in> set invalid_relationship_values)"

definition node_ok :: "node \<Rightarrow> bool" where
  "node_ok n = (\<not> (dtype (detail n) \<in> set relationship_types
                    \<and> py_strip (py_lower (dvalue (detail n))) \<in> set invalid_relationship_values))"

definition all_ok :: "(string, node list) pydict \<Rightarrow> bool" where
  "all_ok d = (\<forall>k ns n. (k, ns) \<in> set d \<and> n \<in> set ns \<longrightarrow> node_ok n)"

definition has_node :: "string \<Rightarrow> node \<Rightarrow> (string, node list) pydict \<Rightarrow> bool" where
  "has_node L n d = (\<exists>ns. dict_get d L = Some ns \<and> n \<in> set ns)"

definition survives :: "node \<Rightarrow> bool" where
  "survives n = (dtype (detail n) \<notin> set travel_types \<and> node_ok n
                  \<and> \<not> invalid_evidence (evidence n) \<and> 3 / 4 \<le> confidence n)"

text \<open>
  A candidate of the given type, value and confidence whose evidence is the given list of
  (message id, snippet) pairs in the extraction format; used for concrete inputs.
\<close>

definition candidate :: "string \<Rightarrow> string \<Rightarrow> rat \<Rightarrow> (string \<times> string) list \<Rightarrow> node" where
  "candidate t v c ev =
     \<lparr>detail = \<lparr>dtype = t, dvalue = v\<rparr>, confidence = c,
      evidence = map (\<lambda>(m, s). \<lparr>message_id = Some m, message_snippet = Some s, snippet = None\<rparr>) ev,
      timestamp = None, ownership_reason = None\<rparr>"

section \<open>Merging and deduplication\<close>

text \<open>
  \<^verbatim>\<open>fuzz.ratio\<close> belongs to the third-party library \<^verbatim>\<open>fuzzywuzzy\<close>, not to this program:
  every function that calls it takes it as the parameter \<open>ratio\<close>, a similarity score of
  two strings on the scale 0--100. For concrete inputs \<open>fuzz_ratio\<close> models the library
  function with the \<^verbatim>\<open>python-Levenshtein\<close> backend that the import of line 7 names: equal
  strings score 100, otherwise an empty string scores 0, otherwise the score is
  \<open>200 * m / (length a + length b)\<close> rounded to the nearest integer (halves to the even
  one), where \<open>m\<close> is the length of a longest common subsequence.
\<close>

fun lcs_length :: "'a list \<Rightarrow> 'a list \<Rightarrow> nat" where
  "lcs_length [] ys = 0"
| "lcs_length (x # xs) [] = 0"
| "lcs_length (x # xs) (y # ys) =
     (if x = y then Suc (lcs_length xs ys)
      else max (lcs_length xs (y # ys)) (lcs_length (x # xs) ys))"

definition py_round_div :: "nat \<Rightarrow> nat \<Rightarrow> int" where
  "py_round_div p q =
     (let d = p div q; r = p mod q
      in if 2 * r < q then int d
         else if q < 2 * r then int d + 1
         else if even d then int d else int d + 1)"

definition fuzz_ratio :: "string \<Rightarrow> string \<Rightarrow> int" where
  "fuzz_ratio a b =
     (if a = b then 100
      else if a = [] \<or> b = [] then 0
      else py_round_div (200 * lcs_length a b) (length a + length b))"

text \<open>The normalised value \<^verbatim>\<open>fact["detail"]["value"].lower().strip()\<close>.\<close>

definition norm_value :: "node \<Rightarrow> string" where
  "norm_value fct = py_strip (py_lower (dvalue (detail fct)))"

subsection \<open>\<^verbatim>\<open>_deduplicate_facts\<close> (lines 461--489)\<close>

text \<open>
  The inner loop over \<^verbatim>\<open>deduped\<close> stops at the first entry of the same type whose
  normalised value scores above 85 against the fact's; \<open>find_duplicate\<close> returns that entry.
  \<open>dedup_step\<close> is one iteration of the outer loop: a duplicate replaces the entry it matched
  (which \<^verbatim>\<open>list.remove\<close> takes out, the fact going to the end) when its confidence is
  strictly higher, and is dropped otherwise.
\<close>

fun find_duplicate :: "(string \<Rightarrow> string \<Rightarrow> int) \<Rightarrow> node \<Rightarrow> node list \<Rightarrow> node option" where
  "find_duplicate ratio fct [] = None"
| "find_duplicate ratio fct (existing # rest) =
     (if dtype (detail fct) = dtype (detail existing)
         \<and> ratio (norm_value fct) (norm_value existing) > 85
      then Some existing
      else find_duplicate ratio fct rest)"

definition dedup_step :: "(string \<Rightarrow> string \<Rightarrow> int) \<Rightarrow> node list \<Rightarrow> node \<Rightarrow> node list" where
  "dedup_step ratio deduped fct =
     (case find_duplicate ratio fct deduped of
        None \<Rightarrow> deduped @ [fct]
      | Some existing \<Rightarrow>
          if confidence fct > confidence existing
          then remove1 existing deduped @ [fct]
          else deduped)"

definition deduplicate_facts :: "(string \<Rightarrow> string \<Rightarrow> int) \<Rightarrow> node list \<Rightarrow> node list" where
  "deduplicate_facts ratio facts =
     (if facts = [] then facts else foldl (dedup_step ratio) [] facts)"

subsection \<open>The Merger: \<^verbatim>\<open>merge_extracted_data\<close> (lines 446--459)\<close>

definition layer_names :: "string list" where
  "layer_names = [''Layer1'', ''Layer2'', ''Layer3'', ''Layer4'']"

text \<open>\<^verbatim>\<open>d[k].extend(xs)\<close> for a dictionary of lists that has the key \<open>k\<close>.\<close>

definition dict_extend :: "'k \<Rightarrow> 'a list \<Rightarrow> ('k, 'a list) pydict \<Rightarrow> ('k, 'a list) pydict" where
  "dict_extend k xs d = (case dict_get d k of None \<Rightarrow> d | Some ys \<Rightarrow> dict_set k (ys @ xs) d)"

definition merge_layer ::
  "(string, node list) pydict \<Rightarrow> (string, node list) pydict \<Rightarrow> string
     \<Rightarrow> (string, node list) pydict" where
  "merge_layer extracted merged layer =
     (case dict_get extracted layer of
        None \<Rightarrow> merged
      | Some nodes \<Rightarrow> dict_extend layer nodes merged)"

definition merge_chunk ::
  "(string, node list) pydict \<Rightarrow> (string, node list) pydict \<Rightarrow> (string, node list) pydict" where
  "merge_chunk merged extracted = foldl (merge_layer extracted) merged layer_names"

text \<open>
  The second loop assigns \<^verbatim>\<open>merged[layer] = self._deduplicate_facts(merged[layer])\<close> for
  every key of \<^verbatim>\<open>merged\<close>.
\<close>

definition dedup_layer ::
  "(string \<Rightarrow> string \<Rightarrow> int) \<Rightarrow> (string, node list) pydict \<Rightarrow> string \<Rightarrow> (string, node list) pydict" where
  "dedup_layer ratio merged layer =
     (case dict_get merged layer of
        None \<Rightarrow> merged
      | Some nodes \<Rightarrow> dict_set layer (deduplicate_facts ratio nodes) merged)"

definition merge_extracted_data ::
  "(string \<Rightarrow> string \<Rightarrow> int) \<Rightarrow> (string, node list) pydict list \<Rightarrow> (string, node list) pydict" where
  "merge_extracted_data ratio all_extracted =
     (let merged = [(''Layer1'', []), (''Layer2'', []), (''Layer3'', []), (''Layer4'', [])];
          merged = foldl merge_chunk merged all_extracted
      in foldl (dedup_layer ratio) merged (map fst merged))"

subsection \<open>Tier B: the rule-based deduplication (lines 719--835)\<close>

text \<open>
  \<^verbatim>\<open>sorted(xs, key=f, reverse=True)\<close>: the list is reversed, sorted by a stable ascending
  sort and reversed again, so that equal keys keep their original order.
\<close>

definition py_sorted_reverse :: "('a \<Rightarrow> 'k::linorder) \<Rightarrow> 'a list \<Rightarrow> 'a list" where
  "py_sorted_reverse f xs = rev (sort_key f (rev xs))"

definition deduplicate_phone_numbers :: "node list \<Rightarrow> node list" where
  "deduplicate_phone_numbers phone_facts =
     (case phone_facts of
        [] \<Rightarrow> []
      | _ # _ \<Rightarrow>
          (case py_sorted_reverse confidence phone_facts of
             [] \<Rightarrow> []
           | best_phone # _ \<Rightarrow> [best_phone]))"

text \<open>
  \<^verbatim>\<open>_deduplicate_contact_info\<close>: for \<^verbatim>\<open>email\<close> an equal normalised value makes a duplicate,
  which is dropped; for \<^verbatim>\<open>address\<close> an equal value or a score above 85 does, and the higher
  confidence wins as in \<open>dedup_step\<close>; for any other \<open>fact_type\<close> nothing is a duplicate.
\<close>

fun find_contact_duplicate ::
  "(string \<Rightarrow> string \<Rightarrow> int) \<Rightarrow> string \<Rightarrow> node \<Rightarrow> node list \<Rightarrow> node option" where
  "find_contact_duplicate ratio fact_type fct [] = None"
| "find_contact_duplicate ratio fact_type fct (existing # rest) =
     (if fact_type = ''email'' then
        (if norm_value fct = norm_value existing then Some existing
         else find_contact_duplicate ratio fact_type fct rest)
      else if fact_type = ''address'' then
        (if norm_value fct = norm_value existing
            \<or> ratio (norm_value fct) (norm_value existing) > 85
         then Some existing
         else find_contact_duplicate ratio fact_type fct rest)
      else find_contact_duplicate ratio fact_type fct rest)"

definition contact_step ::
  "(string \<Rightarrow> string \<Rightarrow> int) \<Rightarrow> string \<Rightarrow> node list \<Rightarrow> node \<Rightarrow> node list" where
  "contact_step ratio fact_type deduped fct =
     (case find_contact_duplicate ratio fact_type fct deduped of
        None \<Rightarrow> deduped @ [fct]
      | Some existing \<Rightarrow>
          if fact_type = ''address'' \<and> confidence fct > confidence existing
          then remove1 existing deduped @ [fct]
          else deduped)"

definition deduplicate_contact_info ::
  "(string \<Rightarrow> string \<Rightarrow> int) \<Rightarrow> node list \<Rightarrow> string \<Rightarrow> node list" where
  "deduplicate_contact_info ratio contact_facts fact_type =
     (if contact_facts = [] then [] else foldl (contact_step ratio fact_type) [] contact_facts)"

text \<open>
  \<^verbatim>\<open>_deduplicate_facts_enhanced\<close>: the facts are grouped by type, the groups in the order in
  which their types first occur; each group goes through the rule of its type and the
  results are concatenated.
\<close>

definition group_step :: "(string, node list) pydict \<Rightarrow> node \<Rightarrow> (string, node list) pydict" where
  "group_step facts_by_type fct =
     (let fact_type = dtype (detail fct);
          facts_by_type =
            (if \<not> dict_contains fact_type facts_by_type
             then dict_set fact_type [] facts_by_type else facts_by_type)
      in dict_append fact_type fct facts_by_type)"

definition dedup_group :: "(string \<Rightarrow> string \<Rightarrow> int) \<Rightarrow> string \<times> node list \<Rightarrow> node list" where
  "dedup_group ratio item =
     (case item of (fact_type, type_facts) \<Rightarrow>
        if fact_type = ''phone_number'' then deduplicate_phone_numbers type_facts
        else if fact_type \<in> set [''address'', ''email'']
          then deduplicate_contact_info ratio type_facts fact_type
        else deduplicate_facts ratio type_facts)"

definition deduplicate_facts_enhanced ::
  "(string \<Rightarrow> string \<Rightarrow> int) \<Rightarrow> node list \<Rightarrow> string \<Rightarrow> node list" where
  "deduplicate_facts_enhanced ratio facts layer =
     (if facts = [] then []
      else foldl (\<lambda>deduped item. deduped @ dedup_group ratio item) []
             (foldl group_step [] facts))"

text \<open>\<^verbatim>\<open>_apply_fallback_deduplication\<close>.\<close>

definition apply_fallback_deduplication ::
  "(string \<Rightarrow> string \<Rightarrow> int) \<Rightarrow> (string, node list) pydict \<Rightarrow> (string, node list) pydict" where
  "apply_fallback_deduplication ratio extracted_data =
     foldl (\<lambda>result item.
              case item of (layer, nodes) \<Rightarrow>
                if nodes = [] then dict_set layer [] result
                else dict_set layer (deduplicate_facts_enhanced ratio nodes layer) result)
       [] extracted_data"

subsection \<open>Notions for the statements about deduplication\<close>

text \<open>
  \<open>similar\<close> is the duplicate test of \<^verbatim>\<open>_deduplicate_facts\<close> (line 477): same type, and a
  score above 85 between the normalised values. \<open>no_later_duplicate\<close> says that no
  candidate of a list is similar to one before it. \<open>similarity_consistent\<close> says that on
  the candidates of a list similarity is symmetric and transitive. \<open>layer_list\<close> is the
  list a chunk's result holds for a layer, empty when the layer is absent.
\<close>

definition similar :: "(string \<Rightarrow> string \<Rightarrow> int) \<Rightarrow> node \<Rightarrow> node \<Rightarrow> bool" where
  "similar ratio a b =
     (dtype (detail a) = dtype (detail b) \<and> 85 < ratio (norm_value a) (norm_value b))"

definition no_later_duplicate :: "(string \<Rightarrow> string \<Rightarrow> int) \<Rightarrow> node list \<Rightarrow> bool" where
  "no_later_duplicate ratio xs = sorted_wrt (\<lambda>a b. \<not> similar ratio b a) xs"

definition similarity_consistent :: "(string \<Rightarrow> string \<Rightarrow> int) \<Rightarrow> node list \<Rightarrow> bool" where
  "similarity_consistent ratio xs =
     ((\<forall>a \<in> set xs. \<forall>b \<in> set xs. similar ratio a b \<longrightarrow> similar ratio b a)
      \<and> (\<forall>a \<in> set xs. \<forall>b \<in> set xs. \<forall>c \<in> set xs.
            similar ratio a b \<and> similar ratio b c \<longrightarrow> similar ratio a c))"

definition layer_list :: "(string, node list) pydict \<Rightarrow> string \<Rightarrow> node list" where
  "layer_list extracted layer = (case dict_get extracted layer of None \<Rightarrow> [] | Some nodes \<Rightarrow> nodes)"

text \<open>
  The three duplicate-removing loops have one shape: find the first kept entry that the
  new one duplicates under a relation \<open>R\<close>; without one, keep the new entry; with one,
  replace it when replacing is on and the new confidence is strictly higher. \<open>greedy_step\<close>
  is that shape; the lemmas below show each loop of the source to be an instance.
\<close>

definition greedy_step :: "(node \<Rightarrow> node \<Rightarrow> bool) \<Rightarrow> bool \<Rightarrow> node list \<Rightarrow> node \<Rightarrow> node list" where
  "greedy_step R replace deduped fct =
     (case find (R fct) deduped of
        None \<Rightarrow> deduped @ [fct]
      | Some existing \<Rightarrow>
          if replace \<and> confidence fct > confidence existing
          then remove1 existing deduped @ [fct]
          else deduped)"

text \<open>
  Auxiliary notions of the proofs: two candidates are \<open>apart\<close> when neither duplicates the
  other; a dictionary is \<open>grouped\<close> over a set of candidates when its keys are distinct and
  each key holds a non-empty list of candidates of that type from the set;
  \<open>group_relation\<close> is the duplicate test that \<^verbatim>\<open>_deduplicate_facts_enhanced\<close> applies to the
  group of a type other than \<^verbatim>\<open>phone_number\<close>.
\<close>

definition apart :: "(node \<Rightarrow> node \<Rightarrow> bool) \<Rightarrow> node \<Rightarrow> node \<Rightarrow> bool" where
  "apart R a b = (\<not> R a b \<and> \<not> R b a)"

definition grouped :: "node set \<Rightarrow> (string, node list) pydict \<Rightarrow> bool" where
  "grouped S d = (distinct (map fst d)
      \<and> (\<forall>t g. (t, g) \<in> set d \<longrightarrow> g \<noteq> [] \<and> (\<forall>f \<in> set g. dtype (detail f) = t \<and> f \<in> S)))"

definition group_relation :: "(string \<Rightarrow> string \<Rightarrow> int) \<Rightarrow> string \<Rightarrow> node \<Rightarrow> node \<Rightarrow> bool" where
  "group_relation ratio t f e =
     (if t = ''email'' then norm_value f = norm_value e
      else if t = ''address'' then
        norm_value f = norm_value e \<or> 85 < ratio (norm_value f) (norm_value e)
      else similar ratio f e)"

section \<open>The Fact Store client\<close>

text \<open>
  \<^verbatim>\<open>src/database/supabase_manager.py\<close>. The hosted database is outside the program. Its
  state is the rows of the two tables the pipeline touches, and the outcome of each
  request sent to it is given by \<open>faults\<close>: the request at the head of the list fails (it
  raises, or answers without data) when the flag is \<open>True\<close>; when the list is used up,
  requests succeed. \<open>client\<close> is \<^verbatim>\<open>self.client is not None\<close>.
\<close>

record memory_node_row =
  row_user_id :: string
  row_layer :: int
  row_fact_type :: string
  row_content :: string
  row_concluded_fact :: string
  row_confidence :: rat
  row_status :: string
  row_evidence :: "evidence_item list"
  row_extraction_method :: string
  row_parent_update_id :: "string option"

record supabase =
  client :: bool
  memory_nodes :: "memory_node_row list"
  processed_files :: "(string, nat) pydict"
  faults :: "bool list"

definition is_connected :: "supabase \<Rightarrow> bool" where
  "is_connected db = client db"

text \<open>One request to the hosted database: whether it succeeds, and the store after it.\<close>

definition request :: "supabase \<Rightarrow> bool \<times> supabase" where
  "request db =
     (case faults db of
        [] \<Rightarrow> (True, db)
      | f # fs \<Rightarrow> (\<not> f, db\<lparr>faults := fs\<rparr>))"

text \<open>Decimal digits of a number, for the identifiers the program builds.\<close>

function show_nat :: "nat \<Rightarrow> string" where
  "show_nat n =
     (if n < 10 then [''0123456789'' ! n]
      else show_nat (n div 10) @ [''0123456789'' ! (n mod 10)])"
  by pat_completeness auto
termination
  by (relation "measure (\<lambda>n. n)") auto

text \<open>
  \<^verbatim>\<open>store_memory_node\<close>: without a client nothing is sent; otherwise the insert either
  stores the row with status \<^verbatim>\<open>pending\<close> and returns its identifier (here the row number)
  or fails and returns \<^verbatim>\<open>None\<close>. Every exception is caught inside.
\<close>

definition store_memory_node ::
  "supabase \<Rightarrow> string \<Rightarrow> int \<Rightarrow> string \<Rightarrow> string \<Rightarrow> string \<Rightarrow> rat \<Rightarrow> evidence_item list
     \<Rightarrow> string \<Rightarrow> string option \<Rightarrow> string option \<times> supabase" where
  "store_memory_node db user_phone layer fact_type content concluded_fact confidence' evidence'
       extraction_method parent_update_id =
     (if \<not> is_connected db then (None, db)
      else
        (let node_data =
               \<lparr>row_user_id = user_phone, row_layer = layer, row_fact_type = fact_type,
                row_content = content, row_concluded_fact = concluded_fact,
                row_confidence = confidence', row_status = ''pending'',
                row_evidence = evidence', row_extraction_method = extraction_method,
                row_parent_update_id = parent_update_id\<rparr>
         in case request db of
              (ok, db) \<Rightarrow>
                if ok then
                  (Some (show_nat (length (memory_nodes db))),
                   db\<lparr>memory_nodes := memory_nodes db @ [node_data]\<rparr>)
                else (None, db)))"

text \<open>
  \<^verbatim>\<open>get_user_summary\<close>: one select; the summary (here the number of the user's rows) or the
  empty summary. \<^verbatim>\<open>store_in_db\<close> only prints it.
\<close>

definition get_user_summary :: "supabase \<Rightarrow> string \<Rightarrow> nat option \<times> supabase" where
  "get_user_summary db user_phone =
     (if \<not> is_connected db then (None, db)
      else case request db of
             (ok, db) \<Rightarrow>
               if ok then (Some (length (filter (\<lambda>r. row_user_id r = user_phone) (memory_nodes db))), db)
               else (None, db))"

definition is_file_processed :: "supabase \<Rightarrow> string \<Rightarrow> bool \<times> supabase" where
  "is_file_processed db user_id =
     (if \<not> is_connected db then (False, db)
      else case request db of
             (ok, db) \<Rightarrow>
               if ok then (dict_contains user_id (processed_files db), db)
               else (False, db))"

definition mark_file_processed :: "supabase \<Rightarrow> string \<Rightarrow> nat \<Rightarrow> bool \<times> supabase" where
  "mark_file_processed db user_id total_nodes_extracted =
     (if \<not> is_connected db then (False, db)
      else case request db of
             (ok, db) \<Rightarrow>
               if ok then
                 (True, db\<lparr>processed_files :=
                            dict_set user_id total_nodes_extracted (processed_files db)\<rparr>)
               else (False, db))"

section \<open>The Persistence Adapter: \<^verbatim>\<open>store_in_db\<close> (lines 299--406)\<close>

text \<open>
  \<^verbatim>\<open>int(layer.replace("Layer", ""))\<close>. \<open>py_remove old s\<close> is \<^verbatim>\<open>s.replace(old, "")\<close>: every
  occurrence of \<open>old\<close>, found from the left without overlap, is taken out. \<open>py_int\<close> is
  \<^verbatim>\<open>int(s)\<close> on ASCII: white space around, an optional sign, then digits in which single
  underscores may separate digits; anything else raises \<^verbatim>\<open>ValueError\<close> (\<open>None\<close>). The white
  space \<^verbatim>\<open>int\<close> skips in an ASCII string is tab, line feed, vertical tab, form feed, carriage
  return and the blank only: unlike \<^verbatim>\<open>str.strip\<close> it does not skip the separators
  \<^verbatim>\<open>0x1c\<close>--\<^verbatim>\<open>0x1f\<close>. A number of more than 4300 digits (the interpreter's default
  \<^verbatim>\<open>int_max_str_digits\<close>) raises \<^verbatim>\<open>ValueError\<close> as well.
\<close>

fun remove_aux :: "string \<Rightarrow> nat \<Rightarrow> string \<Rightarrow> string" where
  "remove_aux old k [] = []"
| "remove_aux old k (c # cs) =
     (if k > 0 then remove_aux old (k - 1) cs
      else if old \<noteq> [] \<and> take (length old) (c # cs) = old
        then remove_aux old (length old - 1) cs
      else c # remove_aux old 0 cs)"

definition py_remove :: "string \<Rightarrow> string \<Rightarrow> string" where
  "py_remove old s = remove_aux old 0 s"

definition is_digit :: "char \<Rightarrow> bool" where
  "is_digit c = (c \<in> set ''0123456789'')"

fun digits_ok :: "string \<Rightarrow> bool" where
  "digits_ok [] = False"
| "digits_ok [c] = is_digit c"
| "digits_ok (c # d # r) =
     (is_digit c \<and> (if d = CHR ''_'' then r \<noteq> [] \<and> digits_ok r else digits_ok (d # r)))"

fun digits_value :: "int \<Rightarrow> string \<Rightarrow> int" where
  "digits_value acc [] = acc"
| "digits_value acc (c # r) =
     (if c = CHR ''_'' then digits_value acc r
      else digits_value (10 * acc + int (length (takeWhile (\<lambda>d. d \<noteq> c) ''0123456789''))) r)"

definition int_isspace :: "char \<Rightarrow> bool" where
  "int_isspace c = (c \<in> set [CHR 0x09, CHR 0x0A, CHR 0x0B, CHR 0x0C, CHR 0x0D, CHR 0x20])"

definition py_int :: "string \<Rightarrow> int option" where
  "py_int s =
     (let t = rev (dropWhile int_isspace (rev (dropWhile int_isspace s)));
          negative = (t \<noteq> [] \<and> hd t = CHR ''-'');
          body = (if t \<noteq> [] \<and> (hd t = CHR ''-'' \<or> hd t = CHR ''+'') then tl t else t)
      in if digits_ok body \<and> length (filter is_digit body) \<le> 4300
         then Some (if negative then - digits_value 0 body else digits_value 0 body)
         else None)"

definition layer_number :: "string \<Rightarrow> int option" where
  "layer_number layer = py_int (py_remove ''Layer'' layer)"

record store_stats =
  stored :: nat
  duplicate :: nat
  low_confidence_rejected :: nat

record store_result =
  newly_stored_nodes :: "(string, node list) pydict"
  stats :: store_stats

text \<open>\<^verbatim>\<open>{layer: nodes for layer, nodes in d.items() if nodes}\<close>\<close>

definition filter_empty_layers :: "(string, node list) pydict \<Rightarrow> (string, node list) pydict" where
  "filter_empty_layers d = filter (\<lambda>item. snd item \<noteq> []) d"

text \<open>
  What \<^verbatim>\<open>store_in_db\<close> returns when the store is disabled and when the \<^verbatim>\<open>try\<close> block raises
  (lines 313--314 and 405--406): every candidate of every non-empty layer, and zero counts.
\<close>

definition all_nodes_result :: "(string, node list) pydict \<Rightarrow> store_result" where
  "all_nodes_result extracted_nodes =
     \<lparr>newly_stored_nodes = filter_empty_layers extracted_nodes,
      stats = \<lparr>stored = 0, duplicate = 0, low_confidence_rejected = 0\<rparr>\<rparr>"

text \<open>
  The state of the two loops of the \<^verbatim>\<open>try\<close> block: the three counters,
  \<^verbatim>\<open>newly_stored_nodes\<close> and the store. \<^verbatim>\<open>if node_id:\<close> holds for a non-empty identifier.
  The rendering of the conclusion (\<^verbatim>\<open>_format_concluded_fact\<close>, a table of templates) does
  not influence the control flow and is the parameter \<open>format_fact\<close>.
\<close>

type_synonym store_state = "nat \<times> nat \<times> nat \<times> (string, node list) pydict \<times> supabase"

definition store_node ::
  "(string \<Rightarrow> string \<Rightarrow> string \<Rightarrow> string) \<Rightarrow> string \<Rightarrow> string \<Rightarrow> int \<Rightarrow> store_state \<Rightarrow> node
     \<Rightarrow> store_state" where
  "store_node format_fact user_id layer layer_no st n =
     (case st of (stored_nodes, duplicate_nodes, rejected, newly, db) \<Rightarrow>
        if confidence n < 3 / 4 then (stored_nodes, duplicate_nodes, Suc rejected, newly, db)
        else
          (let concluded_fact = format_fact user_id (dtype (detail n)) (dvalue (detail n))
           in case store_memory_node db user_id layer_no (dtype (detail n)) (dvalue (detail n))
                     concluded_fact (confidence n) (evidence n) ''initial'' None of
                (node_id, db) \<Rightarrow>
                  if node_id \<noteq> None \<and> node_id \<noteq> Some []
                  then (Suc stored_nodes, duplicate_nodes, rejected, dict_append layer n newly, db)
                  else (stored_nodes, Suc duplicate_nodes, rejected, newly, db)))"

fun store_layers ::
  "(string \<Rightarrow> string \<Rightarrow> string \<Rightarrow> string) \<Rightarrow> string \<Rightarrow> (string \<times> node list) list \<Rightarrow> store_state
     \<Rightarrow> py_error option \<times> store_state" where
  "store_layers format_fact user_id [] st = (None, st)"
| "store_layers format_fact user_id ((layer, nodes) # rest) st =
     (case layer_number layer of
        None \<Rightarrow> (Some ValueError, st)
      | Some layer_no \<Rightarrow>
          (case st of (stored_nodes, duplicate_nodes, rejected, newly, db) \<Rightarrow>
             store_layers format_fact user_id rest
               (foldl (store_node format_fact user_id layer layer_no)
                  (stored_nodes, duplicate_nodes, rejected, dict_set layer [] newly, db) nodes)))"

definition store_in_db ::
  "(string \<Rightarrow> string \<Rightarrow> string \<Rightarrow> string) \<Rightarrow> bool \<Rightarrow> (string, node list) pydict \<Rightarrow> string \<Rightarrow> supabase
     \<Rightarrow> store_result \<times> supabase" where
  "store_in_db format_fact db_enabled extracted_nodes user_id db =
     (if \<not> db_enabled then (all_nodes_result extracted_nodes, db)
      else
        (case store_layers format_fact user_id extracted_nodes (0, 0, 0, [], db) of
           (Some e, (stored_nodes, duplicate_nodes, rejected, newly, db)) \<Rightarrow>
             (all_nodes_result extracted_nodes, db)
         | (None, (stored_nodes, duplicate_nodes, rejected, newly, db)) \<Rightarrow>
             (case get_user_summary db user_id of
                (summary, db) \<Rightarrow>
                  (\<lparr>newly_stored_nodes = filter_empty_layers newly,
                    stats = \<lparr>stored = stored_nodes, duplicate = duplicate_nodes,
                             low_confidence_rejected = rejected\<rparr>\<rparr>, db))))"

section \<open>The external extraction service\<close>

text \<open>
  The language model is outside the program. Its answers are given by two functions of
  the number of calls made so far and of what the prompt is built from. For an extraction
  call the answer is what \<^verbatim>\<open>json.loads\<close> makes of the response text, or \<open>None\<close> when the call
  fails or the text is not JSON. For the deduplication call the answer is the dictionary
  \<^verbatim>\<open>call_llm_for_deduplication\<close> returns (empty on any failure); a fact in it has optional
  keys, and its evidence is \<open>None\<close> when the key is absent or not a list.
\<close>

record llm_fact =
  lf_type :: "string option"
  lf_value :: "string option"
  lf_confidence :: "rat option"
  lf_evidence :: "evidence_item list option"

record message =
  msg_message_id :: "string option"
  msg_text :: "string option"
  sender :: string
  conversation_id :: nat
  msg_id :: string

record llm =
  extract_reply :: "nat \<Rightarrow> message list \<Rightarrow> string \<Rightarrow> (string, raw_node list) pydict option"
  dedup_reply :: "nat \<Rightarrow> (string, node list) pydict \<Rightarrow> string \<Rightarrow> (string, llm_fact list) pydict"

text \<open>The world a run acts on: the store, and the number of calls made to the model.\<close>

record world =
  db :: supabase
  llm_calls :: nat

section \<open>Tier A: \<^verbatim>\<open>deduplicate_with_llm\<close> (lines 578--717)\<close>

text \<open>The evidence of a returned fact, rebuilt in the deduplication format (lines 682--700).\<close>

definition convert_evidence_item :: "evidence_item \<Rightarrow> evidence_item" where
  "convert_evidence_item ev =
     \<lparr>message_id = Some (case message_id ev of None \<Rightarrow> ''unknown'' | Some m \<Rightarrow> m),
      message_snippet = None,
      snippet = Some (case snippet ev of
                        Some t \<Rightarrow> t
                      | None \<Rightarrow> (case message_snippet ev of None \<Rightarrow> [] | Some t \<Rightarrow> t))\<rparr>"

definition convert_evidence :: "evidence_item list option \<Rightarrow> evidence_item list" where
  "convert_evidence e =
     (case e of
        Some evs \<Rightarrow> map convert_evidence_item evs
      | None \<Rightarrow> [\<lparr>message_id = Some ''unknown'', message_snippet = None,
                   snippet = Some ''Evidence missing during deduplication''\<rparr>])"

text \<open>A returned fact as a candidate; a fact without type or value is skipped (\<open>None\<close>).\<close>

definition convert_fact :: "llm_fact \<Rightarrow> node option" where
  "convert_fact fct =
     (case (lf_type fct, lf_value fct) of
        (Some t, Some v) \<Rightarrow>
          Some \<lparr>detail = \<lparr>dtype = t, dvalue = v\<rparr>,
                confidence = (case lf_confidence fct of None \<Rightarrow> 4 / 5 | Some c \<Rightarrow> c),
                evidence = convert_evidence (lf_evidence fct),
                timestamp = None, ownership_reason = None\<rparr>
      | _ \<Rightarrow> None)"

definition count_nodes :: "(string, 'a list) pydict \<Rightarrow> nat" where
  "count_nodes d = sum_list (map (\<lambda>item. length (snd item)) d)"

definition deduplicate_with_llm ::
  "(string \<Rightarrow> string \<Rightarrow> int) \<Rightarrow> llm \<Rightarrow> (string, node list) pydict \<Rightarrow> string \<Rightarrow> world
     \<Rightarrow> (string, node list) pydict \<times> world" where
  "deduplicate_with_llm ratio model extracted_data user_id w =
     (if extracted_data = [] then ([], w)
      else
        (let deduplicated_data = dedup_reply model (llm_calls w) extracted_data user_id;
             w = w\<lparr>llm_calls := Suc (llm_calls w)\<rparr>
         in if deduplicated_data = [] then
              (apply_fallback_deduplication ratio extracted_data, w)
            else if \<exists>k \<in> set (map fst extracted_data). k \<notin> set (map fst deduplicated_data) then
              (apply_fallback_deduplication ratio extracted_data, w)
            else if count_nodes deduplicated_data = 0 \<and> count_nodes extracted_data > 0 then
              (apply_fallback_deduplication ratio extracted_data, w)
            else
              (foldl (\<lambda>result item. dict_set (fst item) (List.map_filter convert_fact (snd item)) result)
                 [] deduplicated_data, w)))"

section \<open>The pipeline: \<^verbatim>\<open>process_json\<close> (lines 837--923)\<close>

record extractor =
  chunk_size :: int
  overlap_size :: int
  db_enabled :: bool

record raw_message =
  rm_message_id :: "string option"
  rm_message :: "string option"

record conversation =
  user_queries :: "raw_message list option"
  team_replies :: "raw_message list option"

text \<open>The flattening of the conversations (lines 848--863).\<close>

definition make_message :: "string \<Rightarrow> string \<Rightarrow> nat \<Rightarrow> raw_message \<Rightarrow> message" where
  "make_message who unknown conv_idx q =
     \<lparr>msg_message_id = rm_message_id q, msg_text = rm_message q, sender = who,
      conversation_id = conv_idx,
      msg_id = (case rm_message_id q of None \<Rightarrow> unknown @ show_nat conv_idx | Some m \<Rightarrow> m)\<rparr>"

definition flatten_conversation :: "nat \<times> conversation \<Rightarrow> message list" where
  "flatten_conversation item =
     (case item of (conv_idx, conv) \<Rightarrow>
        map (make_message ''User'' ''unknown_user_'' conv_idx)
            (case user_queries conv of None \<Rightarrow> [] | Some qs \<Rightarrow> qs)
        @ map (make_message ''Team'' ''unknown_team_'' conv_idx)
            (case team_replies conv of None \<Rightarrow> [] | Some rs \<Rightarrow> rs))"

definition flatten_messages :: "conversation list \<Rightarrow> message list" where
  "flatten_messages input_json = concat (map flatten_conversation (enumerate 0 input_json))"

text \<open>
  \<^verbatim>\<open>deduplicate_messages\<close> (lines 56--67): a message with a non-empty text is kept unless
  its text scores above 95 against a text seen before.
\<close>

definition dedup_message_step ::
  "(string \<Rightarrow> string \<Rightarrow> int) \<Rightarrow> string list \<times> message list \<Rightarrow> message \<Rightarrow> string list \<times> message list" where
  "dedup_message_step ratio st msg =
     (case st of (seen, deduped) \<Rightarrow>
        (let text = py_lower (py_strip (case msg_text msg of None \<Rightarrow> [] | Some t \<Rightarrow> t))
         in if text \<noteq> [] then
              (if list_ex (\<lambda>s. ratio text s > 95) seen then (seen, deduped)
               else (List.insert text seen, deduped @ [msg]))
            else (seen, deduped)))"

definition deduplicate_messages :: "(string \<Rightarrow> string \<Rightarrow> int) \<Rightarrow> message list \<Rightarrow> message list" where
  "deduplicate_messages ratio messages = snd (foldl (dedup_message_step ratio) ([], []) messages)"

text \<open>
  \<^verbatim>\<open>call_llm_for_extraction\<close> on the prompt of a chunk: one call to the model; a failed call
  or an unparsable answer gives the empty result, a parsed answer goes through the
  Validator.
\<close>

definition call_llm_for_extraction ::
  "(string \<Rightarrow> string \<Rightarrow> int) \<Rightarrow> llm \<Rightarrow> message list \<Rightarrow> string \<Rightarrow> world
     \<Rightarrow> (string, node list) pydict \<times> world" where
  "call_llm_for_extraction ratio model chunk user_id w =
     (let reply = extract_reply model (llm_calls w) (deduplicate_messages ratio chunk) user_id;
          w = w\<lparr>llm_calls := Suc (llm_calls w)\<rparr>
      in case reply of
           None \<Rightarrow> ([], w)
         | Some raw_data \<Rightarrow> (validate_extractions raw_data, w))"

definition process_chunk ::
  "(string \<Rightarrow> string \<Rightarrow> int) \<Rightarrow> llm \<Rightarrow> string
     \<Rightarrow> (string, node list) pydict list \<times> world \<Rightarrow> message list
     \<Rightarrow> (string, node list) pydict list \<times> world" where
  "process_chunk ratio model user_id st chunk =
     (case st of (all_extracted_data, w) \<Rightarrow>
        (case call_llm_for_extraction ratio model chunk user_id w of
           (extracted_data, w) \<Rightarrow>
             if extracted_data \<noteq> [] then (all_extracted_data @ [extracted_data], w)
             else (all_extracted_data, w)))"

text \<open>
  What \<^verbatim>\<open>process_json\<close> returns is a dictionary whose values are lists of candidates in a
  normal run, and a string and a boolean in the notice of a skipped run.
\<close>

datatype py_value = Str string | Bool bool | Nodes "node list"

definition skipped_notice :: "(string, py_value) pydict" where
  "skipped_notice = [(''message'', Str ''Already processed''), (''skipped'', Bool True)]"

definition process_json ::
  "(string \<Rightarrow> string \<Rightarrow> int) \<Rightarrow> (string \<Rightarrow> string \<Rightarrow> string \<Rightarrow> string) \<Rightarrow> llm \<Rightarrow> extractor
     \<Rightarrow> conversation list \<Rightarrow> string \<Rightarrow> bool \<Rightarrow> world
     \<Rightarrow> (py_error + (string, py_value) pydict) \<times> world" where
  "process_json ratio format_fact model ext input_json user_id force_reprocess w =
     (case (if \<not> force_reprocess \<and> db_enabled ext
            then (case is_file_processed (db w) user_id of
                    (already_processed, d) \<Rightarrow> (already_processed, w\<lparr>db := d\<rparr>))
            else (False, w)) of
        (skip, w) \<Rightarrow>
          if skip then (Inr skipped_notice, w)
          else
            (case chunk_messages (chunk_size ext) (overlap_size ext) (flatten_messages input_json) of
               Inl e \<Rightarrow> (Inl e, w)
             | Inr chunks \<Rightarrow>
                 (case foldl (process_chunk ratio model user_id) ([], w) chunks of
                    (all_extracted_data, w) \<Rightarrow>
                      if all_extracted_data \<noteq> [] then
                        (let merged_data = merge_extracted_data ratio all_extracted_data
                         in case deduplicate_with_llm ratio model merged_data user_id w of
                              (deduplicated_data, w) \<Rightarrow>
                                (let dedup_total_nodes = count_nodes deduplicated_data
                                 in case store_in_db format_fact (db_enabled ext)
                                           deduplicated_data user_id (db w) of
                                      (storage_result, d) \<Rightarrow>
                                        (let d = (if db_enabled ext
                                                  then snd (mark_file_processed d user_id dedup_total_nodes)
                                                  else d)
                                         in (Inr (map (\<lambda>item. (fst item, Nodes (snd item)))
                                                    (newly_stored_nodes storage_result)),
                                             w\<lparr>db := d\<rparr>))))
                      else (Inr [], w))))"

section \<open>Auxiliary notions and concrete inputs\<close>

text \<open>
  \<open>row_of n r\<close>: the row \<open>r\<close> was written for the candidate \<open>n\<close>. \<open>rows_from ns d d'\<close>: the
  store \<open>d'\<close> has the rows of \<open>d\<close> followed by rows written for candidates of \<open>ns\<close>.
  \<open>fault_free\<close>: the store is connected and no request to it fails.
\<close>

definition row_of :: "node \<Rightarrow> memory_node_row \<Rightarrow> bool" where
  "row_of n r = (row_evidence r = evidence n \<and> row_content r = dvalue (detail n)
                 \<and> row_fact_type r = dtype (detail n) \<and> row_confidence r = confidence n
                 \<and> 3 / 4 \<le> confidence n)"

definition rows_from :: "node list \<Rightarrow> supabase \<Rightarrow> supabase \<Rightarrow> bool" where
  "rows_from ns d d' = (\<exists>rows. memory_nodes d' = memory_nodes d @ rows
                          \<and> (\<forall>r \<in> set rows. \<exists>n \<in> set ns. row_of n r))"

definition fault_free :: "supabase \<Rightarrow> bool" where
  "fault_free d = (client d \<and> faults d = [])"

text \<open>
  The row \<^verbatim>\<open>store_memory_node\<close> inserts for a candidate that \<^verbatim>\<open>store_in_db\<close> passes to it
  (\<open>node_row\<close>), and the rows of the candidates of a dictionary of layers, layer by layer
  (\<open>written_rows\<close>).
\<close>

definition node_row ::
  "(string \<Rightarrow> string \<Rightarrow> string \<Rightarrow> string) \<Rightarrow> string \<Rightarrow> int \<Rightarrow> node \<Rightarrow> memory_node_row" where
  "node_row format_fact user_id layer_no n =
     \<lparr>row_user_id = user_id, row_layer = layer_no, row_fact_type = dtype (detail n),
      row_content = dvalue (detail n),
      row_concluded_fact = format_fact user_id (dtype (detail n)) (dvalue (detail n)),
      row_confidence = confidence n, row_status = ''pending'', row_evidence = evidence n,
      row_extraction_method = ''initial'', row_parent_update_id = None\<rparr>"

definition layer_rows ::
  "(string \<Rightarrow> string \<Rightarrow> string \<Rightarrow> string) \<Rightarrow> string \<Rightarrow> string \<times> node list \<Rightarrow> memory_node_row list" where
  "layer_rows format_fact user_id item =
     (case layer_number (fst item) of
        None \<Rightarrow> []
      | Some layer_no \<Rightarrow> map (node_row format_fact user_id layer_no) (snd item))"

definition written_rows ::
  "(string \<Rightarrow> string \<Rightarrow> string \<Rightarrow> string) \<Rightarrow> string \<Rightarrow> (string, node list) pydict
     \<Rightarrow> memory_node_row list" where
  "written_rows format_fact user_id layers = concat (map (layer_rows format_fact user_id) layers)"

definition all_nodes :: "(string, node list) pydict \<Rightarrow> node list" where
  "all_nodes layers = concat (map snd layers)"

text \<open>
  Concrete inputs: a template for conclusions, a connected empty store, an extractor with the
  default configuration, a transcript of one message, and a model that answers the first
  extraction call with one phone number candidate without evidence and whose
  deduplication answer is unusable (so that Tier B runs).
\<close>

definition example_format :: "string \<Rightarrow> string \<Rightarrow> string \<Rightarrow> string" where
  "example_format u t v = t @ '' of '' @ u @ '' is '' @ v"

definition example_store :: supabase where
  "example_store = \<lparr>client = True, memory_nodes = [], processed_files = [], faults = []\<rparr>"

definition example_extractor :: extractor where
  "example_extractor = \<lparr>chunk_size = 100, overlap_size = 20, db_enabled = True\<rparr>"

definition example_input :: "conversation list" where
  "example_input =
     [\<lparr>user_queries = Some [\<lparr>rm_message_id = Some ''m1'',
                             rm_message = Some ''My phone number is 9876543210''\<rparr>],
       team_replies = None\<rparr>]"

definition example_model :: llm where
  "example_model =
     \<lparr>extract_reply = (\<lambda>k ms u.
         if k = 0 then Some [(''Layer1'', [Node (candidate ''phone_number'' ''9876543210'' (9 / 10) [])])]
         else None),
      dedup_reply = (\<lambda>k d u. [])\<rparr>"

section \<open>Properties of the Chunker\<close>

lemma py_slice_window:
  "py_slice xs (int i) (int i + int sz) = take sz (drop i xs)"
proof -
  have c1: "py_clip (length xs) (int i) = min i (length xs)"
    by (simp add: py_clip_def)
  have "int i + int sz = int (i + sz)" by simp
  then have c2: "py_clip (length xs) (int i + int sz) = min (i + sz) (length xs)"
    by (simp only: py_clip_def nat_int) simp
  show ?thesis
  proof (cases "i \<le> length xs")
    case True
    then show ?thesis
      unfolding py_slice_def Let_def c1 c2 by (auto simp: min_def)
  next
    case False
    then show ?thesis
      unfolding py_slice_def Let_def c1 c2 by (simp add: min_def)
  qed
qed

lemma chunk_loop_windows:
  assumes "0 < st" "st \<le> sz" "a < b" "length xs \<le> b * st" "(b - 1) * st < length xs"
  shows "\<exists>m. 1 \<le> m \<and> a + m \<le> b
           \<and> chunk_loop xs (int sz) (map (\<lambda>k. int k * int st) [a ..< b]) acc
               = acc @ map (window sz st xs) [a ..< a + m]
           \<and> length xs \<le> (a + m - 1) * st + sz
           \<and> (\<forall>k. a \<le> k \<and> k < a + m - 1 \<longrightarrow> k * st + sz < length xs)"
  using assms
proof (induction "b - a" arbitrary: a acc)
  case 0
  then show ?case by simp
next
  case (Suc d)
  have upt: "[a ..< b] = a # [Suc a ..< b]" using Suc.prems by (simp add: upt_conv_Cons)
  have "a * st \<le> (b - 1) * st" using Suc.prems by simp
  then have lt: "a * st < length xs" using Suc.prems by linarith
  have sl: "py_slice xs (int a * int st) (int a * int st + int sz) = window sz st xs a"
    using py_slice_window[of xs "a * st" sz] by (simp add: window_def)
  have ne: "window sz st xs a \<noteq> []" using lt Suc.prems by (simp add: window_def)
  show ?case
  proof (cases "length xs \<le> a * st + sz")
    case True
    then have "int (length xs) \<le> int a * int st + int sz"
      by (metis of_nat_add of_nat_le_iff of_nat_mult)
    then have "chunk_loop xs (int sz) (map (\<lambda>k. int k * int st) [a ..< b]) acc
               = acc @ [window sz st xs a]"
      using ne sl by (simp add: upt Let_def) 
    moreover have "[a ..< a + 1] = [a]" by simp
    ultimately show ?thesis using True Suc.prems
      by (intro exI[of _ 1]) (simp del: upt_Suc)
  next
    case False
    then have far: "a * st + sz < length xs" by simp
    have "Suc a * st \<le> a * st + sz" using Suc.prems by simp
    then have "Suc a * st < b * st" using far Suc.prems by linarith
    then have sab: "Suc a < b" by (metis mult_less_cancel2)
    have "\<not> int (length xs) \<le> int a * int st + int sz"
      using far by (metis not_le of_nat_add of_nat_less_iff of_nat_mult)
    then have step: "chunk_loop xs (int sz) (map (\<lambda>k. int k * int st) [a ..< b]) acc
               = chunk_loop xs (int sz) (map (\<lambda>k. int k * int st) [Suc a ..< b]) (acc @ [window sz st xs a])"
      using ne sl by (simp add: upt Let_def)
    have d: "d = b - Suc a" using Suc.hyps by simp
    from Suc.hyps(1)[OF d Suc.prems(1,2) sab Suc.prems(4,5), of "acc @ [window sz st xs a]"]
    obtain m where m: "1 \<le> m" "Suc a + m \<le> b"
      "chunk_loop xs (int sz) (map (\<lambda>k. int k * int st) [Suc a ..< b]) (acc @ [window sz st xs a])
         = (acc @ [window sz st xs a]) @ map (window sz st xs) [Suc a ..< Suc a + m]"
      "length xs \<le> (Suc a + m - 1) * st + sz"
      "\<forall>k. Suc a \<le> k \<and> k < Suc a + m - 1 \<longrightarrow> k * st + sz < length xs"
      by blast
    have "[a ..< a + Suc m] = a # [Suc a ..< Suc a + m]" by (simp add: upt_conv_Cons)
    then have e: "chunk_loop xs (int sz) (map (\<lambda>k. int k * int st) [a ..< b]) acc
        = acc @ map (window sz st xs) [a ..< a + Suc m]"
      using step m(3) by simp
    have f: "\<forall>k. a \<le> k \<and> k < a + Suc m - 1 \<longrightarrow> k * st + sz < length xs"
    proof (intro allI impI)
      fix k assume k: "a \<le> k \<and> k < a + Suc m - 1"
      show "k * st + sz < length xs"
      proof (cases "k = a")
        case True then show ?thesis using far by simp
      next
        case False
        then have "Suc a \<le> k \<and> k < Suc a + m - 1" using k by simp
        then show ?thesis using m(5) by blast
      qed
    qed
    show ?thesis
      using m(1,2,4) e f by (intro exI[of _ "Suc m"]) simp
  qed
qed

lemma range_count_bounds:
  fixes n st :: nat
  assumes "0 < st" "0 < n"
  defines "b \<equiv> nat ((int n + int st - 1) div int st)"
  shows "0 < b" "n \<le> b * st" "(b - 1) * st < n"
proof -
  have b: "b = (n + st - 1) div st"
  proof -
    have "int n + int st - 1 = int (n + st - 1)" using assms by (simp add: of_nat_diff)
    then have "(int n + int st - 1) div int st = int ((n + st - 1) div st)"
      by (simp only: zdiv_int)
    then show ?thesis by (simp add: b_def)
  qed
  have eq: "n + st - 1 = b * st + (n + st - 1) mod st" unfolding b by simp
  have lt: "(n + st - 1) mod st < st" using assms by simp
  show "0 < b" unfolding b using assms by (simp add: div_greater_zero_iff)
  then have "b * st = (b - 1) * st + st" by (cases b) simp_all
  then show "(b - 1) * st < n" using eq assms by linarith
  show "n \<le> b * st" using eq lt by linarith
qed

lemma chunk_messages_windows:
  assumes "0 \<le> overlap" "overlap < csize" "msgs \<noteq> []"
  defines "sz \<equiv> nat csize" and "st \<equiv> nat (csize - overlap)"
  shows "\<exists>m. 1 \<le> m
           \<and> chunk_messages csize overlap msgs = Inr (map (window sz st msgs) [0 ..< m])
           \<and> length msgs \<le> (m - 1) * st + sz
           \<and> (m - 1) * st < length msgs
           \<and> (\<forall>k. k < m - 1 \<longrightarrow> k * st + sz < length msgs)"
proof -
  have st: "0 < st" "st \<le> sz" "int st = csize - overlap" "int sz = csize"
    using assms by (simp_all add: st_def sz_def)
  define b where "b = nat ((int (length msgs) + int st - 1) div int st)"
  have n: "0 < length msgs" using assms by simp
  note bb = range_count_bounds[OF st(1) n, folded b_def]
  have r: "py_range0 (length msgs) (csize - overlap) = Inr (map (\<lambda>k. int k * int st) [0 ..< b])"
    using assms st by (simp add: py_range0_def b_def)
  from chunk_loop_windows[OF st(1,2) bb(1) bb(2) bb(3), of "[]"]
  obtain m where m: "1 \<le> m" "m \<le> b"
     "chunk_loop msgs (int sz) (map (\<lambda>k. int k * int st) [0 ..< b]) [] = map (window sz st msgs) [0 ..< m]"
     "length msgs \<le> (m - 1) * st + sz" "\<forall>k. k < m - 1 \<longrightarrow> k * st + sz < length msgs"
    by auto
  have "m - 1 \<le> b - 1" using m(1,2) by linarith
  then have "(m - 1) * st \<le> (b - 1) * st" by (rule mult_le_mono1)
  then have "(m - 1) * st < length msgs" using bb(3) by linarith
  moreover have "chunk_messages csize overlap msgs = Inr (map (window sz st msgs) [0 ..< m])"
    using assms(3) r m(3) st(4) by (simp add: chunk_messages_def)
  ultimately show ?thesis using m(1,4,5) by blast
qed

text \<open>
  Claim C7. For every message list and every configuration with
  \<open>chunk_size > overlap \<ge> 0\<close> the Chunker returns (it does not raise) a list of chunks such
  that: the empty input gives the empty output; chunk \<open>k\<close> is the non-empty window of at
  most \<open>chunk_size\<close> messages starting at position \<open>k * (chunk_size - overlap)\<close>; every
  message position lies in at least one chunk, where the chunk holds that very message;
  and for consecutive chunks \<open>k\<close>, \<open>k + 1\<close> the chunk \<open>k\<close> is full and its last \<open>overlap\<close>
  messages are the first \<open>overlap\<close> messages of chunk \<open>k + 1\<close> (only the final chunk may be
  shorter).
\<close>

theorem chunk_messages_cover_overlap:
  assumes "0 \<le> overlap" "overlap < csize"
  shows "\<exists>chunks. chunk_messages csize overlap msgs = Inr chunks
           \<and> (msgs = [] \<longrightarrow> chunks = [])
           \<and> (\<forall>k < length chunks. chunks ! k \<noteq> []
                 \<and> chunks ! k = take (nat csize) (drop (k * nat (csize - overlap)) msgs))
           \<and> (\<forall>j < length msgs. \<exists>k < length chunks.
                 k * nat (csize - overlap) \<le> j
                 \<and> j - k * nat (csize - overlap) < length (chunks ! k)
                 \<and> chunks ! k ! (j - k * nat (csize - overlap)) = msgs ! j)
           \<and> (\<forall>k. Suc k < length chunks \<longrightarrow>
                 length (chunks ! k) = nat csize
                 \<and> drop (length (chunks ! k) - nat overlap) (chunks ! k)
                     = take (nat overlap) (chunks ! Suc k))"
proof (cases "msgs = []")
  case True
  then show ?thesis by (simp add: chunk_messages_def)
next
  case False
  define sz where "sz = nat csize"
  define st where "st = nat (csize - overlap)"
  define ov where "ov = nat overlap"
  have st: "0 < st" "st \<le> sz" "sz = st + ov"
    using assms by (simp_all add: st_def sz_def ov_def)
  from chunk_messages_windows[OF assms False, folded sz_def st_def]
  obtain m where m: "1 \<le> m"
    "chunk_messages csize overlap msgs = Inr (map (window sz st msgs) [0 ..< m])"
    "length msgs \<le> (m - 1) * st + sz" "(m - 1) * st < length msgs"
    "\<forall>k. k < m - 1 \<longrightarrow> k * st + sz < length msgs"
    by blast
  define chunks where "chunks = map (window sz st msgs) [0 ..< m]"
  have len: "length chunks = m" by (simp add: chunks_def)
  have nth: "chunks ! k = take sz (drop (k * st) msgs)" if "k < m" for k
    using that by (simp add: chunks_def window_def)
  have p2: "\<forall>k < length chunks. chunks ! k \<noteq> [] \<and> chunks ! k = take sz (drop (k * st) msgs)"
  proof (intro allI impI)
    fix k assume k: "k < length chunks"
    then have "k \<le> m - 1" using len by linarith
    then have "k * st \<le> (m - 1) * st" by (rule mult_le_mono1)
    then have "k * st < length msgs" using m(4) by linarith
    then show "chunks ! k \<noteq> [] \<and> chunks ! k = take sz (drop (k * st) msgs)"
      using nth k len st by simp
  qed
  have p3: "\<forall>j < length msgs. \<exists>k < length chunks. k * st \<le> j
               \<and> j - k * st < length (chunks ! k) \<and> chunks ! k ! (j - k * st) = msgs ! j"
  proof (intro allI impI)
    fix j assume j: "j < length msgs"
    define k where "k = min (j div st) (m - 1)"
    have km: "k < m" using m(1) by (simp add: k_def)
    have "k * st \<le> (j div st) * st" by (simp add: k_def)
    then have lo: "k * st \<le> j" by (metis div_times_less_eq_dividend le_trans)
    have hi: "j < k * st + sz"
    proof (cases "j div st \<le> m - 1")
      case True
      then have "k = j div st" by (simp add: k_def)
      moreover have "j < st + (j div st) * st" using st(1) by (rule dividend_less_div_times)
      ultimately have "j < k * st + st" by simp
      then show ?thesis using st(2) by linarith
    next
      case False
      then have "k = m - 1" by (simp add: k_def)
      then show ?thesis using m(3) j by simp
    qed
    have d: "j - k * st < sz" "j - k * st < length msgs - k * st" "k * st + (j - k * st) = j"
      using lo hi j by linarith+
    have l: "j - k * st < length (chunks ! k)" using nth[OF km] d(1,2) by simp
    have "chunks ! k ! (j - k * st) = msgs ! j" using nth[OF km] d by simp
    then show "\<exists>k < length chunks. k * st \<le> j
               \<and> j - k * st < length (chunks ! k) \<and> chunks ! k ! (j - k * st) = msgs ! j"
      using km lo l len by blast
  qed
  have p4: "\<forall>k. Suc k < length chunks \<longrightarrow> length (chunks ! k) = sz
               \<and> drop (length (chunks ! k) - ov) (chunks ! k) = take ov (chunks ! Suc k)"
  proof (intro allI impI)
    fix k assume k: "Suc k < length chunks"
    then have far: "k * st + sz < length msgs" using m(5) len by simp
    have a: "chunks ! k = take sz (drop (k * st) msgs)" using nth k len by simp
    have b: "chunks ! Suc k = take sz (drop (Suc k * st) msgs)" using nth k len by simp
    have l: "length (chunks ! k) = sz" using a far by simp
    have "drop st (take sz (drop (k * st) msgs)) = take ov (drop (st + k * st) msgs)"
      using st(3) by (simp add: drop_take)
    moreover have "take ov (take sz (drop (Suc k * st) msgs)) = take ov (drop (st + k * st) msgs)"
      using st(3) by (simp add: min_def)
    ultimately show "length (chunks ! k) = sz
               \<and> drop (length (chunks ! k) - ov) (chunks ! k) = take ov (chunks ! Suc k)"
      using l a b st(3) by simp
  qed
  have p1: "chunk_messages csize overlap msgs = Inr chunks"
    using m(2) by (simp only: chunks_def)
  have p0: "msgs = [] \<longrightarrow> chunks = []" using False by simp
  show ?thesis
    using p1 p0 p2 p3 p4 unfolding sz_def st_def ov_def
    by - (rule exI[of _ chunks], (rule conjI | assumption)+)
qed

theorem chunk_messages_cover_overlap_witness:
  "(0::int) \<le> 2 \<and> (2::int) < 5
   \<and> chunk_messages 5 2 ''abcdefghijk'' = Inr [''abcde'', ''defgh'', ''ghijk'']
   \<and> (\<exists>chunks. chunk_messages 5 2 ''abcdefghijk'' = Inr chunks
         \<and> (\<forall>k. Suc k < length chunks \<longrightarrow>
               length (chunks ! k) = nat 5
               \<and> drop (length (chunks ! k) - nat 2) (chunks ! k) = take (nat 2) (chunks ! Suc k)))"
proof -
  have h1: "(0::int) \<le> 2" and h2: "(2::int) < 5" by simp_all
  have r: "chunk_messages 5 2 ''abcdefghijk'' = Inr [''abcde'', ''defgh'', ''ghijk'']"
    by (simp add: chunk_messages_def py_range0_def py_slice_def py_clip_def upt_rec)
  from chunk_messages_cover_overlap[OF h1 h2, of "''abcdefghijk''"]
  have "\<exists>chunks. chunk_messages 5 2 ''abcdefghijk'' = Inr chunks
         \<and> (\<forall>k. Suc k < length chunks \<longrightarrow>
               length (chunks ! k) = nat 5
               \<and> drop (length (chunks ! k) - nat 2) (chunks ! k) = take (nat 2) (chunks ! Suc k))"
    by blast
  then show ?thesis using h1 h2 r by blast
qed

text \<open>
  Claim C4 as stated (every configuration with \<open>overlap \<ge> chunk_size\<close> raises a configuration
  error) fails: with \<open>chunk_size = 2\<close> and \<open>overlap = 3\<close> the step of the range is negative,
  the loop body never runs and the empty list of chunks is returned without any error.
\<close>

theorem chunk_messages_overlap_gt_size_counterexample:
  "chunk_messages 2 3 [''m1'', ''m2'', ''m3''] = Inr []"
  by (simp add: chunk_messages_def py_range0_def)

text \<open>
  Claim C4, amended. For \<open>overlap \<ge> chunk_size\<close> the Chunker never loops (the model is a total
  function) and: on a non-empty message list with \<open>overlap = chunk_size\<close> it raises
  \<^verbatim>\<open>ValueError\<close> (the zero step of \<^verbatim>\<open>range\<close>); in every other case (\<open>overlap > chunk_size\<close>, or
  no messages) it returns the empty list of chunks.
\<close>

theorem chunk_messages_overlap_ge_size:
  assumes "csize \<le> overlap"
  shows "chunk_messages csize overlap msgs
           = (if msgs \<noteq> [] \<and> overlap = csize then Inl ValueError else Inr [])"
  using assms by (auto simp: chunk_messages_def py_range0_def)

theorem chunk_messages_overlap_ge_size_witness:
  "(3::int) \<le> 3 \<and> chunk_messages 3 3 [''m1'', ''m2''] = Inl ValueError"
  using chunk_messages_overlap_ge_size[of 3 3 "[''m1'', ''m2'']"] by simp

section \<open>Properties of the Extraction Validator\<close>

subsection \<open>Dictionary lemmas\<close>

lemma set_dict_set: "set (dict_set k v d) \<subseteq> insert (k, v) (set d)"
  by (induction d) (auto split: if_splits)

lemma dict_get_dict_set: "dict_get (dict_set k v d) k' = (if k' = k then Some v else dict_get d k')"
  by (induction d) (auto simp: dict_get_def)

lemma dict_get_mem: "dict_get d k = Some v \<Longrightarrow> (k, v) \<in> set d"
  by (simp add: dict_get_def map_of_SomeD)

lemma dict_get_contains: "dict_get d k = Some v \<Longrightarrow> dict_contains k d"
  by (auto simp: dict_contains_def dest!: dict_get_mem intro: rev_image_eqI)

lemma all_ok_dict_set: "all_ok d \<Longrightarrow> (\<forall>n \<in> set v. node_ok n) \<Longrightarrow> all_ok (dict_set k v d)"
  unfolding all_ok_def using set_dict_set[of k v d] by blast

lemma all_ok_dict_append: "all_ok d \<Longrightarrow> node_ok n \<Longrightarrow> all_ok (dict_append k n d)"
proof (cases "dict_get d k")
  case None
  assume "all_ok d" then show ?thesis using None by (simp add: dict_append_def)
next
  case (Some xs)
  assume a: "all_ok d" "node_ok n"
  have "\<forall>x \<in> set (xs @ [n]). node_ok x"
    using a dict_get_mem[OF Some] by (auto simp: all_ok_def)
  then show ?thesis using a Some by (simp add: dict_append_def all_ok_dict_set)
qed

lemma travel_node_ok: "dtype (detail n) \<in> set travel_types \<Longrightarrow> node_ok n"
  by (auto simp: node_ok_def travel_types_def relationship_types_def)

lemma validate_node_ok:
  assumes "all_ok (fst st)" "\<forall>n \<in> set (snd st). node_ok n"
  shows "all_ok (fst (validate_node layer st rn)) \<and> (\<forall>n \<in> set (snd (validate_node layer st rn)). node_ok n)"
proof (cases rn)
  case NotANode
  then show ?thesis using assms by (simp add: validate_node_def split: prod.splits)
next
  case (Node n)
  obtain vd vn where st: "st = (vd, vn)" by (cases st)
  show ?thesis
  proof (cases "layer = ''Layer1'' \<and> dtype (detail n) \<in> set travel_types")
    case True
    then have ok: "node_ok n" by (simp add: travel_node_ok)
    have "all_ok (if \<not> dict_contains ''Layer4'' vd then dict_set ''Layer4'' [] vd else vd)"
      using assms st by (simp add: all_ok_dict_set)
    then show ?thesis using True Node st assms ok
      by (simp add: validate_node_def Let_def all_ok_dict_append del: dict_set.simps)
  next
    case False
    then show ?thesis using Node st assms
      by (auto simp: validate_node_def Let_def node_ok_def)
  qed
qed

lemma foldl_validate_node_ok:
  "all_ok (fst st) \<Longrightarrow> \<forall>n \<in> set (snd st). node_ok n \<Longrightarrow>
   all_ok (fst (foldl (validate_node layer) st nodes))
   \<and> (\<forall>n \<in> set (snd (foldl (validate_node layer) st nodes)). node_ok n)"
proof (induction nodes arbitrary: st)
  case Nil
  then show ?case by simp
next
  case (Cons rn nodes)
  from validate_node_ok[OF Cons.prems, of layer rn]
  show ?case using Cons.IH[of "validate_node layer st rn"] by simp
qed

lemma validate_layer_ok: "all_ok d \<Longrightarrow> all_ok (validate_layer d item)"
proof -
  assume a: "all_ok d"
  obtain layer nodes where item: "item = (layer, nodes)" by (cases item)
  obtain vd vn where r: "foldl (validate_node layer) (d, []) nodes = (vd, vn)"
    by (cases "foldl (validate_node layer) (d, []) nodes")
  from foldl_validate_node_ok[of "(d, [])" layer nodes] a r
  have "all_ok vd" "\<forall>n \<in> set vn. node_ok n" by simp_all
  then show ?thesis using item r by (simp add: validate_layer_def all_ok_dict_set)
qed

lemma foldl_validate_layer_ok: "all_ok d \<Longrightarrow> all_ok (foldl validate_layer d raw)"
  by (induction raw arbitrary: d) (simp_all add: validate_layer_ok)

lemma validate_extractions_ok: "all_ok (validate_extractions raw)"
  unfolding validate_extractions_def by (rule foldl_validate_layer_ok) (simp add: all_ok_def)

lemma strip_relation_word: "w \<in> set invalid_relationship_values \<Longrightarrow> py_strip w = w"
  by (auto simp: invalid_relationship_values_def py_strip_def py_isspace_def)

lemma has_node_dict_set_other: "k \<noteq> L \<Longrightarrow> has_node L n d \<Longrightarrow> has_node L n (dict_set k v d)"
  by (simp add: has_node_def dict_get_dict_set)

lemma has_node_dict_append: "has_node L n d \<Longrightarrow> has_node L n (dict_append k x d)"
  by (cases "dict_get d k") (auto simp: has_node_def dict_append_def dict_get_dict_set)

lemma has_node_ensure: "has_node L n d \<Longrightarrow>
   has_node L n (if \<not> dict_contains k d then dict_set k [] d else d)"
  by (cases "k = L") (auto simp: has_node_def dict_get_dict_set dict_get_contains)

lemma validate_node_has:
  "has_node L n (fst st) \<Longrightarrow> has_node L n (fst (validate_node layer st rn))"
  by (cases st; cases rn)
     (auto simp: validate_node_def Let_def has_node_dict_append has_node_ensure
           simp del: dict_set.simps)

lemma validate_node_mono: "set (snd st) \<subseteq> set (snd (validate_node layer st rn))"
  by (cases st; cases rn) (auto simp: validate_node_def Let_def)

lemma validate_node_adds:
  "survives n \<Longrightarrow> n \<in> set (snd (validate_node layer st (Node n)))"
  by (cases st) (auto simp: validate_node_def Let_def survives_def node_ok_def)

lemma foldl_validate_node_has:
  "has_node L n (fst st) \<Longrightarrow> has_node L n (fst (foldl (validate_node layer) st nodes))"
  by (induction nodes arbitrary: st) (simp_all add: validate_node_has)

lemma foldl_validate_node_mono:
  "set (snd st) \<subseteq> set (snd (foldl (validate_node layer) st nodes))"
proof (induction nodes arbitrary: st)
  case Nil show ?case by simp
next
  case (Cons rn nodes)
  show ?case using validate_node_mono[of st layer rn] Cons[of "validate_node layer st rn"] by auto
qed

lemma foldl_validate_node_adds:
  "Node n \<in> set nodes \<Longrightarrow> survives n \<Longrightarrow> n \<in> set (snd (foldl (validate_node layer) st nodes))"
proof (induction nodes arbitrary: st)
  case Nil then show ?case by simp
next
  case (Cons rn nodes)
  show ?case
  proof (cases "rn = Node n")
    case True
    then show ?thesis
      using validate_node_adds[OF Cons.prems(2), of layer st]
            foldl_validate_node_mono[of "validate_node layer st rn" layer nodes] by auto
  next
    case False
    then show ?thesis using Cons by auto
  qed
qed

lemma validate_layer_own:
  assumes "Node n \<in> set nodes" "survives n"
  shows "has_node layer n (validate_layer d (layer, nodes))"
proof -
  obtain vd vn where r: "foldl (validate_node layer) (d, []) nodes = (vd, vn)"
    by (cases "foldl (validate_node layer) (d, []) nodes")
  have "n \<in> set vn" using foldl_validate_node_adds[OF assms, of layer "(d, [])"] r by simp
  then show ?thesis using r by (auto simp: validate_layer_def has_node_def dict_get_dict_set)
qed

lemma validate_layer_other:
  assumes "fst item \<noteq> L" "has_node L n d"
  shows "has_node L n (validate_layer d item)"
proof -
  obtain layer nodes where item: "item = (layer, nodes)" by (cases item)
  obtain vd vn where r: "foldl (validate_node layer) (d, []) nodes = (vd, vn)"
    by (cases "foldl (validate_node layer) (d, []) nodes")
  have "has_node L n vd" using foldl_validate_node_has[of L n "(d, [])" layer nodes] assms r by simp
  then show ?thesis using r item assms by (simp add: validate_layer_def has_node_dict_set_other)
qed

lemma foldl_validate_layer_other:
  "L \<notin> fst ` set raw \<Longrightarrow> has_node L n d \<Longrightarrow> has_node L n (foldl validate_layer d raw)"
  by (induction raw arbitrary: d) (auto simp: validate_layer_other)

lemma foldl_validate_layer_has:
  "distinct (map fst raw) \<Longrightarrow> (L, nodes) \<in> set raw \<Longrightarrow> Node n \<in> set nodes \<Longrightarrow> survives n
   \<Longrightarrow> has_node L n (foldl validate_layer d raw)"
proof (induction raw arbitrary: d)
  case Nil then show ?case by simp
next
  case (Cons item raw)
  show ?case
  proof (cases "item = (L, nodes)")
    case True
    then have "L \<notin> fst ` set raw" using Cons.prems(1) by auto
    then show ?thesis
      using True validate_layer_own[OF Cons.prems(3,4), of L d] foldl_validate_layer_other by simp
  next
    case False
    then show ?thesis using Cons by auto
  qed
qed


text \<open>
  Claim C9 as stated fails in its second half: a \<^verbatim>\<open>spouse\<close> candidate with the specific name
  \<^verbatim>\<open>Sarah\<close> and confidence 0.9 does not survive when one of its evidence snippets is a
  contentless phrase (here \<^verbatim>\<open>Thanks\<close>); the Validator returns nothing.
\<close>

theorem validator_named_relation_counterexample:
  "validate_extractions
     [(''Layer3'', [Node (candidate ''spouse'' ''Sarah'' (9 / 10) [(''m7'', ''Thanks'')])])] = []"
  by (simp add: validate_extractions_def validate_layer_def validate_node_def candidate_def
        travel_types_def relationship_types_def invalid_relationship_values_def
        invalid_evidence_patterns_def py_strip_def py_lower_def py_lower_char_def py_isspace_def)

text \<open>
  Claim C9, amended. (1) No candidate with fact type \<^verbatim>\<open>relationship\<close>, \<^verbatim>\<open>family_member\<close> or
  \<^verbatim>\<open>spouse\<close> whose value is a bare relation word (case-insensitively) appears in any layer
  of the Validator's output. (2) A candidate of one of these types whose normalised value
  is not a bare relation word and whose confidence is at least 0.75 appears in the output
  under its own layer, provided none of its evidence snippets is one of the contentless
  phrases.
\<close>

theorem validator_relation_words:
  "(\<forall>layer ns n. (layer, ns) \<in> set (validate_extractions raw_data) \<and> n \<in> set ns
        \<and> dtype (detail n) \<in> set relationship_types
      \<longrightarrow> \<not> bare_relation_word (dvalue (detail n)))
   \<and> (distinct (map fst raw_data) \<and> (L, nodes) \<in> set raw_data \<and> Node c \<in> set nodes
        \<and> dtype (detail c) \<in> set relationship_types
        \<and> py_strip (py_lower (dvalue (detail c))) \<notin> set invalid_relationship_values
        \<and> 3 / 4 \<le> confidence c
        \<and> \<not> invalid_evidence (evidence c)
      \<longrightarrow> (\<exists>ns. dict_get (validate_extractions raw_data) L = Some ns \<and> c \<in> set ns))"
proof (intro conjI allI impI)
  fix layer ns n
  assume a: "(layer, ns) \<in> set (validate_extractions raw_data) \<and> n \<in> set ns
        \<and> dtype (detail n) \<in> set relationship_types"
  then have "node_ok n" using validate_extractions_ok[of raw_data] unfolding all_ok_def by blast
  then have "py_strip (py_lower (dvalue (detail n))) \<notin> set invalid_relationship_values"
    using a by (simp add: node_ok_def)
  then show "\<not> bare_relation_word (dvalue (detail n))"
    unfolding bare_relation_word_def using strip_relation_word by fastforce
next
  assume a: "distinct (map fst raw_data) \<and> (L, nodes) \<in> set raw_data \<and> Node c \<in> set nodes
        \<and> dtype (detail c) \<in> set relationship_types
        \<and> py_strip (py_lower (dvalue (detail c))) \<notin> set invalid_relationship_values
        \<and> 3 / 4 \<le> confidence c
        \<and> \<not> invalid_evidence (evidence c)"
  then have "dtype (detail c) \<notin> set travel_types"
    by (auto simp: travel_types_def relationship_types_def)
  then have "survives c" using a by (simp add: survives_def node_ok_def)
  then have "has_node L c (validate_extractions raw_data)"
    unfolding validate_extractions_def using a foldl_validate_layer_has by blast
  then show "\<exists>ns. dict_get (validate_extractions raw_data) L = Some ns \<and> c \<in> set ns"
    by (simp add: has_node_def)
qed


theorem validator_relation_words_witness:
  "distinct (map fst [(''Layer3'', [Node (candidate ''spouse'' ''Wife'' (9 / 10) []),
                                     Node (candidate ''spouse'' ''Sarah'' (9 / 10) [])])])
   \<and> bare_relation_word ''Wife''
   \<and> validate_extractions
        [(''Layer3'', [Node (candidate ''spouse'' ''Wife'' (9 / 10) []),
                       Node (candidate ''spouse'' ''Sarah'' (9 / 10) [])])]
      = [(''Layer3'', [candidate ''spouse'' ''Sarah'' (9 / 10) []])]
   \<and> (\<exists>ns. dict_get (validate_extractions
                [(''Layer3'', [Node (candidate ''spouse'' ''Wife'' (9 / 10) []),
                               Node (candidate ''spouse'' ''Sarah'' (9 / 10) [])])]) ''Layer3'' = Some ns
           \<and> candidate ''spouse'' ''Sarah'' (9 / 10) [] \<in> set ns)"
proof -
  let ?raw = "[(''Layer3'', [Node (candidate ''spouse'' ''Wife'' (9 / 10) []),
                             Node (candidate ''spouse'' ''Sarah'' (9 / 10) [])])]"
  let ?c = "candidate ''spouse'' ''Sarah'' (9 / 10) []"
  have h: "distinct (map fst ?raw) \<and> (''Layer3'', snd (hd ?raw)) \<in> set ?raw
        \<and> Node ?c \<in> set (snd (hd ?raw))
        \<and> dtype (detail ?c) \<in> set relationship_types
        \<and> py_strip (py_lower (dvalue (detail ?c))) \<notin> set invalid_relationship_values
        \<and> 3 / 4 \<le> confidence ?c
        \<and> \<not> invalid_evidence (evidence ?c)"
    by (simp add: candidate_def relationship_types_def invalid_relationship_values_def
          py_strip_def py_lower_def py_lower_char_def py_isspace_def)
  have w: "bare_relation_word ''Wife''"
    by (simp add: bare_relation_word_def invalid_relationship_values_def py_lower_def
          py_lower_char_def)
  have r: "validate_extractions ?raw = [(''Layer3'', [?c])]"
    by (simp add: validate_extractions_def validate_layer_def validate_node_def candidate_def
          travel_types_def relationship_types_def invalid_relationship_values_def
          py_strip_def py_lower_def py_lower_char_def py_isspace_def)
  from validator_relation_words[of ?raw "''Layer3''" "snd (hd ?raw)" ?c] h
  have "\<exists>ns. dict_get (validate_extractions ?raw) ''Layer3'' = Some ns \<and> ?c \<in> set ns"
    by blast
  then show ?thesis using h w r by blast
qed

text \<open>
  Claim C2. The claim is what the Validator is written to do (line 287 drops every
  candidate below 0.75), but the \<^verbatim>\<open>continue\<close> of the travel branch (line 283) leaves the
  iteration before that check: a \<^verbatim>\<open>flight_number\<close> candidate of layer 1 with confidence
  0.5 is in the output, under \<^verbatim>\<open>Layer4\<close>.
\<close>

theorem validator_travel_skips_confidence:
  "validate_extractions
     [(''Layer1'', [Node (candidate ''flight_number'' ''AI202'' (1 / 2)
                           [(''m3'', ''my flight is AI202'')])])]
   = [(''Layer4'', [candidate ''flight_number'' ''AI202'' (1 / 2)
                      [(''m3'', ''my flight is AI202'')]])]
   \<and> confidence (candidate ''flight_number'' ''AI202'' (1 / 2)
                    [(''m3'', ''my flight is AI202'')]) < 3 / 4"
  by (simp add: validate_extractions_def validate_layer_def validate_node_def candidate_def
        travel_types_def relationship_types_def dict_contains_def dict_append_def dict_get_def)

section \<open>Properties of the deduplication\<close>

subsection \<open>Phone numbers\<close>

lemma last_insort_key:
  "last (insort_key f x zs) = (if \<forall>z \<in> set zs. f z < f x then x else last zs)"
proof (induction zs)
  case Nil
  show ?case by simp
next
  case (Cons y ys)
  show ?case
  proof (cases "f x \<le> f y")
    case True
    then show ?thesis by auto
  next
    case False
    have ne: "insort_key f x ys \<noteq> []" by (cases ys) auto
    show ?thesis using False Cons ne by (cases "ys = []") auto
  qed
qed

lemma hd_py_sorted_reverse_snoc:
  "hd (py_sorted_reverse f (xs @ [x]))
     = (if \<forall>z \<in> set xs. f z < f x then x else hd (py_sorted_reverse f xs))"
proof -
  have ne: "insort_key f x (sort_key f (rev xs)) \<noteq> []"
    by (cases "sort_key f (rev xs)") auto
  have "xs \<noteq> [] \<Longrightarrow> sort_key f (rev xs) \<noteq> []"
    by (metis length_0_conv length_rev length_sort)
  then show ?thesis
    using ne by (auto simp: py_sorted_reverse_def hd_rev last_insort_key)
qed

lemma hd_py_sorted_reverse_first_max:
  "xs \<noteq> [] \<Longrightarrow>
   \<exists>i < length xs. hd (py_sorted_reverse f xs) = xs ! i
      \<and> (\<forall>j < length xs. f (xs ! j) \<le> f (xs ! i))
      \<and> (\<forall>j < i. f (xs ! j) < f (xs ! i))"
proof (induction xs rule: rev_induct)
  case Nil
  then show ?case by simp
next
  case (snoc x xs)
  show ?case
  proof (cases "\<forall>z \<in> set xs. f z < f x")
    case True
    have a: "hd (py_sorted_reverse f (xs @ [x])) = (xs @ [x]) ! length xs"
      using True by (simp add: hd_py_sorted_reverse_snoc)
    have b: "\<forall>j < length (xs @ [x]). f ((xs @ [x]) ! j) \<le> f ((xs @ [x]) ! length xs)"
    proof (intro allI impI)
      fix j assume "j < length (xs @ [x])"
      then show "f ((xs @ [x]) ! j) \<le> f ((xs @ [x]) ! length xs)"
        using True by (cases "j < length xs") (auto simp: nth_append less_imp_le)
    qed
    have c: "\<forall>j < length xs. f ((xs @ [x]) ! j) < f ((xs @ [x]) ! length xs)"
      using True by (simp add: nth_append)
    show ?thesis using a b c by (intro exI[of _ "length xs"]) simp
  next
    case False
    then have ne: "xs \<noteq> []" by auto
    from snoc.IH[OF ne] obtain i where i: "i < length xs"
      "hd (py_sorted_reverse f xs) = xs ! i"
      "\<forall>j < length xs. f (xs ! j) \<le> f (xs ! i)" "\<forall>j < i. f (xs ! j) < f (xs ! i)"
      by blast
    from False obtain z where z: "z \<in> set xs" "f x \<le> f z" by (auto simp: not_less)
    then obtain k where k: "k < length xs" "xs ! k = z" by (auto simp: in_set_conv_nth)
    then have xle: "f x \<le> f (xs ! i)" using i(3) z by (metis order_trans)
    have "hd (py_sorted_reverse f (xs @ [x])) = hd (py_sorted_reverse f xs)"
      using False by (simp only: hd_py_sorted_reverse_snoc if_False)
    then have a: "hd (py_sorted_reverse f (xs @ [x])) = (xs @ [x]) ! i"
      using i by (simp add: nth_append)
    have b: "\<forall>j < length (xs @ [x]). f ((xs @ [x]) ! j) \<le> f ((xs @ [x]) ! i)"
    proof (intro allI impI)
      fix j assume "j < length (xs @ [x])"
      then show "f ((xs @ [x]) ! j) \<le> f ((xs @ [x]) ! i)"
        using i xle by (cases "j < length xs") (auto simp: nth_append)
    qed
    have c: "\<forall>j < i. f ((xs @ [x]) ! j) < f ((xs @ [x]) ! i)"
      using i by (simp add: nth_append)
    show ?thesis using a b c i(1) by (intro exI[of _ i]) simp
  qed
qed

lemma group_step_same_type:
  "dtype (detail f) = t \<Longrightarrow> group_step [(t, acc)] f = [(t, acc @ [f])]"
  by (simp add: group_step_def dict_contains_def dict_append_def dict_get_def)

lemma group_step_first: "group_step [] f = [(dtype (detail f), [f])]"
  by (simp add: group_step_def dict_contains_def dict_append_def dict_get_def)

lemma foldl_group_step_same_type:
  "\<forall>f \<in> set xs. dtype (detail f) = t \<Longrightarrow>
   foldl group_step [(t, acc)] xs = [(t, acc @ xs)]"
  by (induction xs arbitrary: acc) (simp_all add: group_step_same_type)

lemma group_single_type:
  assumes "xs \<noteq> []" "\<forall>f \<in> set xs. dtype (detail f) = t"
  shows "foldl group_step [] xs = [(t, xs)]"
proof -
  obtain y ys where xs: "xs = y # ys" using assms(1) by (cases xs) auto
  then show ?thesis
    using assms(2) foldl_group_step_same_type[of ys t "[y]"] by (simp add: group_step_first)
qed

lemma deduplicate_phone_numbers_hd:
  "xs \<noteq> [] \<Longrightarrow> deduplicate_phone_numbers xs = [hd (py_sorted_reverse confidence xs)]"
proof -
  assume ne: "xs \<noteq> []"
  then have "py_sorted_reverse confidence xs \<noteq> []"
    by (metis py_sorted_reverse_def length_0_conv length_rev length_sort)
  then show ?thesis using ne
    by (auto simp: deduplicate_phone_numbers_def split: list.splits)
qed


text \<open>
  Claim C8. For every non-empty list of \<^verbatim>\<open>phone_number\<close> candidates the Tier B
  deduplication (\<^verbatim>\<open>_deduplicate_facts_enhanced\<close>, and \<^verbatim>\<open>_deduplicate_phone_numbers\<close> itself)
  returns exactly one candidate: the one at the first position \<open>i\<close> of the input whose
  confidence is maximal (no candidate has a higher confidence, every earlier one has a
  strictly lower one).
\<close>

theorem phone_numbers_keep_first_maximum:
  assumes "phone_facts \<noteq> []"
    and "\<forall>f \<in> set phone_facts. dtype (detail f) = ''phone_number''"
  shows "\<exists>i < length phone_facts.
           deduplicate_facts_enhanced ratio phone_facts layer = [phone_facts ! i]
           \<and> deduplicate_phone_numbers phone_facts = [phone_facts ! i]
           \<and> (\<forall>j < length phone_facts. confidence (phone_facts ! j) \<le> confidence (phone_facts ! i))
           \<and> (\<forall>j < i. confidence (phone_facts ! j) < confidence (phone_facts ! i))"
proof -
  have "deduplicate_facts_enhanced ratio phone_facts layer = deduplicate_phone_numbers phone_facts"
    using assms(1) group_single_type[OF assms]
    by (simp add: deduplicate_facts_enhanced_def dedup_group_def)
  then show ?thesis
    using hd_py_sorted_reverse_first_max[OF assms(1), of confidence]
          deduplicate_phone_numbers_hd[OF assms(1)] by auto
qed


theorem phone_numbers_keep_first_maximum_witness:
  "deduplicate_facts_enhanced fuzz_ratio
     [candidate ''phone_number'' ''9870781578'' (7 / 10) [],
      candidate ''phone_number'' ''9876543210'' (95 / 100) [],
      candidate ''phone_number'' ''+91 9876543210'' (8 / 10) []] ''Layer1''
   = [candidate ''phone_number'' ''9876543210'' (95 / 100) []]
   \<and> (\<exists>i < length [candidate ''phone_number'' ''9870781578'' (7 / 10) [],
          candidate ''phone_number'' ''9876543210'' (95 / 100) [],
          candidate ''phone_number'' ''+91 9876543210'' (8 / 10) []].
       deduplicate_facts_enhanced fuzz_ratio
         [candidate ''phone_number'' ''9870781578'' (7 / 10) [],
          candidate ''phone_number'' ''9876543210'' (95 / 100) [],
          candidate ''phone_number'' ''+91 9876543210'' (8 / 10) []] ''Layer1''
       = [[candidate ''phone_number'' ''9870781578'' (7 / 10) [],
           candidate ''phone_number'' ''9876543210'' (95 / 100) [],
           candidate ''phone_number'' ''+91 9876543210'' (8 / 10) []] ! i])"
proof -
  let ?xs = "[candidate ''phone_number'' ''9870781578'' (7 / 10) [],
              candidate ''phone_number'' ''9876543210'' (95 / 100) [],
              candidate ''phone_number'' ''+91 9876543210'' (8 / 10) []]"
  have h1: "?xs \<noteq> []" by simp
  have h2: "\<forall>f \<in> set ?xs. dtype (detail f) = ''phone_number''"
    by (simp add: candidate_def)
  have r: "deduplicate_facts_enhanced fuzz_ratio ?xs ''Layer1''
             = [candidate ''phone_number'' ''9876543210'' (95 / 100) []]"
    by (simp add: deduplicate_facts_enhanced_def group_step_def dict_contains_def
          dict_append_def dict_get_def dedup_group_def deduplicate_phone_numbers_def
          py_sorted_reverse_def candidate_def Let_def)
  from phone_numbers_keep_first_maximum[OF h1 h2, of fuzz_ratio "''Layer1''"]
  have "\<exists>i < length ?xs. deduplicate_facts_enhanced fuzz_ratio ?xs ''Layer1'' = [?xs ! i]"
    by blast
  then show ?thesis using r by blast
qed

subsection \<open>The loops of the source as greedy loops\<close>
lemma find_duplicate_find: "find_duplicate ratio f ds = find (similar ratio f) ds"
  by (induction ds) (simp_all add: similar_def)

lemma dedup_step_greedy: "dedup_step ratio = greedy_step (similar ratio) True"
  by (intro ext) (simp add: dedup_step_def greedy_step_def find_duplicate_find split: option.splits)

lemma find_contact_duplicate_email:
  "find_contact_duplicate ratio ''email'' f ds = find (\<lambda>e. norm_value f = norm_value e) ds"
  by (induction ds) simp_all

lemma find_contact_duplicate_address:
  "find_contact_duplicate ratio ''address'' f ds
     = find (\<lambda>e. norm_value f = norm_value e \<or> 85 < ratio (norm_value f) (norm_value e)) ds"
  by (induction ds) simp_all

lemma contact_step_email:
  "contact_step ratio ''email'' = greedy_step (\<lambda>f e. norm_value f = norm_value e) False"
  by (intro ext) (simp add: contact_step_def greedy_step_def find_contact_duplicate_email split: option.splits)

lemma contact_step_address:
  "contact_step ratio ''address''
     = greedy_step (\<lambda>f e. norm_value f = norm_value e \<or> 85 < ratio (norm_value f) (norm_value e)) True"
  by (intro ext) (simp add: contact_step_def greedy_step_def find_contact_duplicate_address split: option.splits)

subsection \<open>The greedy loop\<close>

lemma greedy_step_set: "set (greedy_step R rep ds f) \<subseteq> insert f (set ds)"
  by (auto simp: greedy_step_def split: option.splits dest: notin_set_remove1 set_mp[OF set_remove1_subset])

lemma greedy_step_nonempty: "greedy_step R rep ds f \<noteq> []"
  by (auto simp: greedy_step_def find_Some_iff split: option.splits)

lemma foldl_greedy_set: "set (foldl (greedy_step R rep) ds xs) \<subseteq> set ds \<union> set xs"
proof (induction xs arbitrary: ds)
  case Nil show ?case by simp
next
  case (Cons x xs)
  show ?case using Cons[of "greedy_step R rep ds x"] greedy_step_set[of R rep ds x] by auto
qed

lemma foldl_greedy_nonempty: "ds \<noteq> [] \<or> xs \<noteq> [] \<Longrightarrow> foldl (greedy_step R rep) ds xs \<noteq> []"
  by (induction xs arbitrary: ds) (simp_all add: greedy_step_nonempty)

lemma foldl_greedy_fixpoint:
  "sorted_wrt (\<lambda>a b. \<not> R b a) (ds @ xs) \<Longrightarrow> foldl (greedy_step R rep) ds xs = ds @ xs"
proof (induction xs arbitrary: ds)
  case Nil show ?case by simp
next
  case (Cons x xs)
  have "\<forall>e \<in> set ds. \<not> R x e" using Cons.prems by (auto simp: sorted_wrt_append)
  then have "find (R x) ds = None" by (simp add: find_None_iff)
  then have "greedy_step R rep ds x = ds @ [x]" by (simp add: greedy_step_def)
  then show ?case using Cons.IH[of "ds @ [x]"] Cons.prems by simp
qed

lemma sorted_wrt_remove1: "sorted_wrt P xs \<Longrightarrow> sorted_wrt P (remove1 x xs)"
  by (induction xs) (auto dest: notin_set_remove1)

lemma sorted_wrt_remove1_related:
  "sorted_wrt P ds \<Longrightarrow> e \<in> set ds \<Longrightarrow> x \<in> set (remove1 e ds) \<Longrightarrow> P e x \<or> P x e"
proof (induction ds)
  case Nil then show ?case by simp
next
  case (Cons d ds)
  then show ?case by (cases "d = e") auto
qed

lemma greedy_step_apart:
  assumes sym: "\<forall>a \<in> S. \<forall>b \<in> S. R a b \<longrightarrow> R b a"
    and trans: "\<forall>a \<in> S. \<forall>b \<in> S. \<forall>c \<in> S. R a b \<and> R b c \<longrightarrow> R a c"
    and sub: "set ds \<subseteq> S" "f \<in> S"
    and inv: "sorted_wrt (apart R) ds"
  shows "sorted_wrt (apart R) (greedy_step R rep ds f)"
proof (cases "find (R f) ds")
  case None
  then have "\<forall>e \<in> set ds. \<not> R f e" by (simp add: find_None_iff)
  moreover have "\<forall>e \<in> set ds. \<not> R e f" using calculation sym sub by blast
  ultimately show ?thesis using None inv
    by (simp add: greedy_step_def sorted_wrt_append apart_def)
next
  case (Some e)
  then have e: "e \<in> set ds" "R f e" by (auto simp: find_Some_iff)
  then have eS: "e \<in> S" using sub by auto
  have ef: "R e f" using e eS sub sym by blast
  show ?thesis
  proof (cases "rep \<and> confidence f > confidence e")
    case False
    then show ?thesis using Some inv by (auto simp: greedy_step_def)
  next
    case True
    have "apart R x f" if x: "x \<in> set (remove1 e ds)" for x
    proof (rule ccontr)
      assume n: "\<not> apart R x f"
      have xS: "x \<in> S" using x sub set_remove1_subset[of e ds] by auto
      from n have "R x f \<or> R f x" by (simp add: apart_def)
      then have both: "R x f \<and> R f x" using sym xS sub by blast
      then have "R e x" using trans ef eS xS sub by blast
      moreover have "R x e" using trans both e eS xS sub by blast
      moreover have "apart R e x \<or> apart R x e"
        using sorted_wrt_remove1_related[OF inv e(1) x] .
      ultimately show False by (simp add: apart_def)
    qed
    then show ?thesis using True Some inv
      by (simp add: greedy_step_def sorted_wrt_append sorted_wrt_remove1)
  qed
qed

lemma foldl_greedy_apart:
  assumes sym: "\<forall>a \<in> S. \<forall>b \<in> S. R a b \<longrightarrow> R b a"
    and trans: "\<forall>a \<in> S. \<forall>b \<in> S. \<forall>c \<in> S. R a b \<and> R b c \<longrightarrow> R a c"
  shows "set ds \<subseteq> S \<Longrightarrow> set xs \<subseteq> S \<Longrightarrow> sorted_wrt (apart R) ds
           \<Longrightarrow> sorted_wrt (apart R) (foldl (greedy_step R rep) ds xs)"
proof (induction xs arbitrary: ds)
  case Nil then show ?case by simp
next
  case (Cons x xs)
  have a: "sorted_wrt (apart R) (greedy_step R rep ds x)"
    using greedy_step_apart[OF sym trans Cons.prems(1) _ Cons.prems(3)] Cons.prems(2) by simp
  have b: "set (greedy_step R rep ds x) \<subseteq> S"
    using greedy_step_set[of R rep ds x] Cons.prems by auto
  show ?case using Cons.IH[OF b _ a] Cons.prems(2) by simp
qed

lemma foldl_greedy_idempotent:
  assumes sym: "\<forall>a \<in> set xs. \<forall>b \<in> set xs. R a b \<longrightarrow> R b a"
    and trans: "\<forall>a \<in> set xs. \<forall>b \<in> set xs. \<forall>c \<in> set xs. R a b \<and> R b c \<longrightarrow> R a c"
  shows "foldl (greedy_step R rep) [] (foldl (greedy_step R rep) [] xs)
           = foldl (greedy_step R rep) [] xs"
proof -
  have "sorted_wrt (apart R) (foldl (greedy_step R rep) [] xs)"
    using foldl_greedy_apart[OF sym trans, of "[]" xs rep] by simp
  then have "sorted_wrt (\<lambda>a b. \<not> R b a) (foldl (greedy_step R rep) [] xs)"
    by (rule sorted_wrt_mono_rel[rotated]) (simp add: apart_def)
  then show ?thesis using foldl_greedy_fixpoint[of R "[]"] by simp
qed

lemma deduplicate_facts_foldl:
  "deduplicate_facts ratio xs = foldl (greedy_step (similar ratio) True) [] xs"
  by (simp add: deduplicate_facts_def dedup_step_greedy)

lemma deduplicate_facts_fixpoint:
  "no_later_duplicate ratio xs \<Longrightarrow> deduplicate_facts ratio xs = xs"
  using foldl_greedy_fixpoint[of "similar ratio" "[]" xs True]
  by (simp add: deduplicate_facts_foldl no_later_duplicate_def)

subsection \<open>The Merger\<close>

lemma merge_chunk_layers:
  "merge_chunk [(''Layer1'', a), (''Layer2'', b), (''Layer3'', c), (''Layer4'', d)] e
     = [(''Layer1'', a @ layer_list e ''Layer1''), (''Layer2'', b @ layer_list e ''Layer2''),
        (''Layer3'', c @ layer_list e ''Layer3''), (''Layer4'', d @ layer_list e ''Layer4'')]"
  by (simp add: merge_chunk_def layer_names_def merge_layer_def dict_extend_def dict_get_def
        layer_list_def split: option.splits)

lemma foldl_merge_chunk_layers:
  "foldl merge_chunk [(''Layer1'', a), (''Layer2'', b), (''Layer3'', c), (''Layer4'', d)] es
     = [(''Layer1'', a @ concat (map (\<lambda>e. layer_list e ''Layer1'') es)),
        (''Layer2'', b @ concat (map (\<lambda>e. layer_list e ''Layer2'') es)),
        (''Layer3'', c @ concat (map (\<lambda>e. layer_list e ''Layer3'') es)),
        (''Layer4'', d @ concat (map (\<lambda>e. layer_list e ''Layer4'') es))]"
  by (induction es arbitrary: a b c d) (simp_all add: merge_chunk_layers)

lemma dedup_layers:
  "foldl (dedup_layer ratio) [(''Layer1'', a), (''Layer2'', b), (''Layer3'', c), (''Layer4'', d)]
     [''Layer1'', ''Layer2'', ''Layer3'', ''Layer4'']
   = [(''Layer1'', deduplicate_facts ratio a), (''Layer2'', deduplicate_facts ratio b),
      (''Layer3'', deduplicate_facts ratio c), (''Layer4'', deduplicate_facts ratio d)]"
  by (simp add: dedup_layer_def dict_get_def)

lemma merge_extracted_data_layers:
  "merge_extracted_data ratio all_extracted
     = map (\<lambda>layer. (layer, deduplicate_facts ratio
                               (concat (map (\<lambda>e. layer_list e layer) all_extracted))))
         layer_names"
proof -
  have m: "foldl merge_chunk [(''Layer1'', []), (''Layer2'', []), (''Layer3'', []), (''Layer4'', [])]
             all_extracted
     = [(''Layer1'', concat (map (\<lambda>e. layer_list e ''Layer1'') all_extracted)),
        (''Layer2'', concat (map (\<lambda>e. layer_list e ''Layer2'') all_extracted)),
        (''Layer3'', concat (map (\<lambda>e. layer_list e ''Layer3'') all_extracted)),
        (''Layer4'', concat (map (\<lambda>e. layer_list e ''Layer4'') all_extracted))]"
    using foldl_merge_chunk_layers[of "[]" "[]" "[]" "[]" all_extracted] by simp
  show ?thesis
    unfolding merge_extracted_data_def Let_def m
    by (simp only: list.map fst_conv dedup_layers layer_names_def)
qed

text \<open>
  Claim C1 as stated fails: the Merger deduplicates. Two chunks that each report the same
  phone number (the chunks overlap, so this is the usual case) give a merged layer 1 with
  one candidate, while the concatenation of the two lists has two.
\<close>

theorem merge_drops_duplicate_counterexample:
  "merge_extracted_data fuzz_ratio
     [[(''Layer1'', [candidate ''phone_number'' ''9876543210'' (9 / 10) [(''m1'', ''My phone number is 9876543210'')]])],
      [(''Layer1'', [candidate ''phone_number'' ''9876543210'' (9 / 10) [(''m1'', ''My phone number is 9876543210'')]])]]
   = [(''Layer1'', [candidate ''phone_number'' ''9876543210'' (9 / 10) [(''m1'', ''My phone number is 9876543210'')]]),
      (''Layer2'', []), (''Layer3'', []), (''Layer4'', [])]
   \<and> concat (map (\<lambda>e. layer_list e ''Layer1'')
       [[(''Layer1'', [candidate ''phone_number'' ''9876543210'' (9 / 10) [(''m1'', ''My phone number is 9876543210'')]])],
        [(''Layer1'', [candidate ''phone_number'' ''9876543210'' (9 / 10) [(''m1'', ''My phone number is 9876543210'')]])]])
     = [candidate ''phone_number'' ''9876543210'' (9 / 10) [(''m1'', ''My phone number is 9876543210'')],
        candidate ''phone_number'' ''9876543210'' (9 / 10) [(''m1'', ''My phone number is 9876543210'')]]"
  by (simp add: merge_extracted_data_layers layer_names_def
        layer_list_def dict_get_def deduplicate_facts_def dedup_step_def fuzz_ratio_def)

text \<open>
  Claim C1, amended. The Merger returns, over the fixed four layers in their order, for
  each layer the result of \<^verbatim>\<open>_deduplicate_facts\<close> on the concatenation of that layer's
  candidate lists in chunk-processing order (then within-chunk order); that result is the
  concatenation itself, nothing dropped, whenever no candidate of the concatenation is a
  same-type duplicate (score above 85) of an earlier one.
\<close>

theorem merge_deduplicates_concatenation:
  "merge_extracted_data ratio all_extracted
     = map (\<lambda>layer. (layer, deduplicate_facts ratio
                               (concat (map (\<lambda>e. layer_list e layer) all_extracted))))
         layer_names
   \<and> (\<forall>layer. no_later_duplicate ratio (concat (map (\<lambda>e. layer_list e layer) all_extracted))
        \<longrightarrow> deduplicate_facts ratio (concat (map (\<lambda>e. layer_list e layer) all_extracted))
              = concat (map (\<lambda>e. layer_list e layer) all_extracted))"
  using merge_extracted_data_layers[of ratio all_extracted]
  by (simp add: deduplicate_facts_fixpoint)

theorem merge_deduplicates_concatenation_witness:
  "no_later_duplicate fuzz_ratio
     (concat (map (\<lambda>e. layer_list e ''Layer1'')
        [[(''Layer1'', [candidate ''name'' ''Rahul Singh'' (9 / 10) []])],
         [(''Layer1'', [candidate ''phone_number'' ''9876543210'' (9 / 10) []]),
          (''Layer4'', [candidate ''allergy'' ''peanuts'' (4 / 5) []])]]))
   \<and> merge_extracted_data fuzz_ratio
        [[(''Layer1'', [candidate ''name'' ''Rahul Singh'' (9 / 10) []])],
         [(''Layer1'', [candidate ''phone_number'' ''9876543210'' (9 / 10) []]),
          (''Layer4'', [candidate ''allergy'' ''peanuts'' (4 / 5) []])]]
      = [(''Layer1'', [candidate ''name'' ''Rahul Singh'' (9 / 10) [],
                       candidate ''phone_number'' ''9876543210'' (9 / 10) []]),
         (''Layer2'', []), (''Layer3'', []),
         (''Layer4'', [candidate ''allergy'' ''peanuts'' (4 / 5) []])]"
proof -
  let ?all = "[[(''Layer1'', [candidate ''name'' ''Rahul Singh'' (9 / 10) []])],
               [(''Layer1'', [candidate ''phone_number'' ''9876543210'' (9 / 10) []]),
                (''Layer4'', [candidate ''allergy'' ''peanuts'' (4 / 5) []])]]"
  have n1: "no_later_duplicate fuzz_ratio (concat (map (\<lambda>e. layer_list e ''Layer1'') ?all))"
    by (simp add: layer_list_def dict_get_def no_later_duplicate_def similar_def candidate_def)
  have r: "merge_extracted_data fuzz_ratio ?all
      = [(''Layer1'', [candidate ''name'' ''Rahul Singh'' (9 / 10) [],
                       candidate ''phone_number'' ''9876543210'' (9 / 10) []]),
         (''Layer2'', []), (''Layer3'', []),
         (''Layer4'', [candidate ''allergy'' ''peanuts'' (4 / 5) []])]"
    by (simp add: merge_extracted_data_layers layer_names_def layer_list_def dict_get_def
          deduplicate_facts_def dedup_step_def candidate_def)
  from merge_deduplicates_concatenation[of fuzz_ratio ?all] n1
  have "deduplicate_facts fuzz_ratio (concat (map (\<lambda>e. layer_list e ''Layer1'') ?all))
          = concat (map (\<lambda>e. layer_list e ''Layer1'') ?all)"
    by blast
  then show ?thesis using n1 r by blast
qed

subsection \<open>Grouping by type\<close>
lemma dict_set_new: "k \<notin> fst ` set d \<Longrightarrow> dict_set k v d = d @ [(k, v)]"
  by (induction d) auto

lemma dict_set_last: "k \<notin> fst ` set d \<Longrightarrow> dict_set k v (d @ [(k, u)]) = d @ [(k, v)]"
  by (induction d) auto

lemma dict_get_last: "k \<notin> fst ` set d \<Longrightarrow> dict_get (d @ [(k, u)]) k = Some u"
  by (induction d) (auto simp: dict_get_def)

lemma dict_set_keys: "k \<in> fst ` set d \<Longrightarrow> map fst (dict_set k v d) = map fst d"
  by (induction d) force+

lemma dict_get_None: "k \<notin> fst ` set d \<Longrightarrow> dict_get d k = None"
  by (simp add: dict_get_def map_of_eq_None_iff)

lemma dict_get_Some: "k \<in> fst ` set d \<Longrightarrow> \<exists>v. dict_get d k = Some v"
  by (metis dict_get_def map_of_eq_None_iff not_None_eq)

lemma group_step_new:
  "dtype (detail f) \<notin> fst ` set d \<Longrightarrow> group_step d f = d @ [(dtype (detail f), [f])]"
  by (simp add: group_step_def Let_def dict_contains_def dict_set_new dict_append_def
        dict_get_last dict_set_last)

lemma group_step_old:
  "dict_get d (dtype (detail f)) = Some xs \<Longrightarrow>
   group_step d f = dict_set (dtype (detail f)) (xs @ [f]) d"
proof -
  assume a: "dict_get d (dtype (detail f)) = Some xs"
  then have "(dtype (detail f), xs) \<in> set d" by (rule dict_get_mem)
  then have "dtype (detail f) \<in> fst ` set d" by force
  then show ?thesis using a
    by (simp add: group_step_def Let_def dict_contains_def dict_append_def)
qed

lemma group_step_last:
  "t \<notin> fst ` set acc \<Longrightarrow> dtype (detail f) = t \<Longrightarrow>
   group_step (acc @ [(t, pre)]) f = acc @ [(t, pre @ [f])]"
  using group_step_old[of "acc @ [(t, pre)]" f pre]
  by (simp add: dict_get_last dict_set_last)

lemma foldl_group_step_last:
  "t \<notin> fst ` set acc \<Longrightarrow> \<forall>f \<in> set ys. dtype (detail f) = t \<Longrightarrow>
   foldl group_step (acc @ [(t, pre)]) ys = acc @ [(t, pre @ ys)]"
  by (induction ys arbitrary: pre) (simp_all add: group_step_last)

lemma foldl_group_step_block:
  assumes "t \<notin> fst ` set acc" "g \<noteq> []" "\<forall>f \<in> set g. dtype (detail f) = t"
  shows "foldl group_step acc g = acc @ [(t, g)]"
proof -
  obtain y ys where g: "g = y # ys" using assms(2) by (cases g) auto
  have "group_step acc y = acc @ [(t, [y])]" using assms g by (simp add: group_step_new)
  then show ?thesis
    using g assms foldl_group_step_last[of t acc ys "[y]"] by simp
qed

lemma foldl_group_step_blocks:
  "distinct (map fst gs) \<Longrightarrow> fst ` set acc \<inter> fst ` set gs = {} \<Longrightarrow>
   \<forall>t g. (t, g) \<in> set gs \<longrightarrow> g \<noteq> [] \<and> (\<forall>f \<in> set g. dtype (detail f) = t) \<Longrightarrow>
   foldl group_step acc (concat (map snd gs)) = acc @ gs"
proof (induction gs arbitrary: acc)
  case Nil then show ?case by simp
next
  case (Cons p gs)
  obtain t g where p: "p = (t, g)" by (cases p)
  have t: "t \<notin> fst ` set acc" using Cons.prems(2) p by auto
  have g: "g \<noteq> []" "\<forall>f \<in> set g. dtype (detail f) = t" using Cons.prems(3) p by auto
  have b: "foldl group_step acc g = acc @ [(t, g)]" by (rule foldl_group_step_block[OF t g])
  have d: "distinct (map fst gs)" using Cons.prems(1) by simp
  have i: "fst ` set (acc @ [(t, g)]) \<inter> fst ` set gs = {}"
    using Cons.prems(1,2) p by auto
  have r: "\<forall>t g. (t, g) \<in> set gs \<longrightarrow> g \<noteq> [] \<and> (\<forall>f \<in> set g. dtype (detail f) = t)"
    using Cons.prems(3) by auto
  have "foldl group_step acc (concat (map snd (p # gs)))
          = foldl group_step (foldl group_step acc g) (concat (map snd gs))"
    using p by simp
  also have "\<dots> = foldl group_step (acc @ [(t, g)]) (concat (map snd gs))"
    by (simp only: b)
  also have "\<dots> = (acc @ [(t, g)]) @ gs" by (rule Cons.IH[OF d i r])
  finally show ?case using p by simp
qed

lemma groupedI:
  "distinct (map fst d) \<Longrightarrow>
   (\<And>t g. (t, g) \<in> set d \<Longrightarrow> g \<noteq> [] \<and> (\<forall>f \<in> set g. dtype (detail f) = t \<and> f \<in> S))
   \<Longrightarrow> grouped S d"
  unfolding grouped_def by blast

lemma grouped_distinct: "grouped S d \<Longrightarrow> distinct (map fst d)"
  unfolding grouped_def by blast

lemma grouped_group:
  "grouped S d \<Longrightarrow> (t, g) \<in> set d \<Longrightarrow> g \<noteq> [] \<and> (\<forall>f \<in> set g. dtype (detail f) = t \<and> f \<in> S)"
  unfolding grouped_def by blast

lemma mem_append_single:
  "(t, g) \<in> set (d @ [(k, v)]) \<Longrightarrow> (t, g) \<in> set d \<or> (t = k \<and> g = v)"
  by auto

lemma mem_dict_set:
  "(t, g) \<in> set (dict_set k v d) \<Longrightarrow> (t = k \<and> g = v) \<or> (t, g) \<in> set d"
  using set_dict_set[of k v d] by blast

lemma grouped_new:
  assumes "grouped S d" "f \<in> S" "dtype (detail f) \<notin> fst ` set d"
  shows "grouped S (d @ [(dtype (detail f), [f])])"
proof (rule groupedI)
  show "distinct (map fst (d @ [(dtype (detail f), [f])]))"
    using assms(3) grouped_distinct[OF assms(1)] by simp
next
  fix t g assume "(t, g) \<in> set (d @ [(dtype (detail f), [f])])"
  then have "(t, g) \<in> set d \<or> (t = dtype (detail f) \<and> g = [f])"
    by (rule mem_append_single)
  then show "g \<noteq> [] \<and> (\<forall>x \<in> set g. dtype (detail x) = t \<and> x \<in> S)"
  proof
    assume "(t, g) \<in> set d"
    then show ?thesis by (rule grouped_group[OF assms(1)])
  next
    assume "t = dtype (detail f) \<and> g = [f]"
    then show ?thesis using assms(2) by simp
  qed
qed

lemma grouped_old:
  assumes "grouped S d" "f \<in> S" "(dtype (detail f), xs) \<in> set d"
  shows "grouped S (dict_set (dtype (detail f)) (xs @ [f]) d)"
proof (rule groupedI)
  have "dtype (detail f) \<in> fst ` set d" using assms(3) by force
  then show "distinct (map fst (dict_set (dtype (detail f)) (xs @ [f]) d))"
    using grouped_distinct[OF assms(1)] by (simp only: dict_set_keys)
next
  fix t g assume "(t, g) \<in> set (dict_set (dtype (detail f)) (xs @ [f]) d)"
  then have "(t = dtype (detail f) \<and> g = xs @ [f]) \<or> (t, g) \<in> set d"
    by (rule mem_dict_set)
  then show "g \<noteq> [] \<and> (\<forall>x \<in> set g. dtype (detail x) = t \<and> x \<in> S)"
  proof
    assume 1: "t = dtype (detail f) \<and> g = xs @ [f]"
    have "\<forall>x \<in> set xs. dtype (detail x) = dtype (detail f) \<and> x \<in> S"
      using grouped_group[OF assms(1,3)] by simp
    then show ?thesis using 1 assms(2) by simp
  next
    assume "(t, g) \<in> set d"
    then show ?thesis by (rule grouped_group[OF assms(1)])
  qed
qed

lemma group_step_grouped:
  assumes "grouped S d" "f \<in> S"
  shows "grouped S (group_step d f)"
proof (cases "dtype (detail f) \<in> fst ` set d")
  case False
  show ?thesis
    using grouped_new[OF assms False] by (simp only: group_step_new[OF False])
next
  case True
  from dict_get_Some[OF True] obtain xs where xs: "dict_get d (dtype (detail f)) = Some xs" ..
  have m: "(dtype (detail f), xs) \<in> set d" using xs by (rule dict_get_mem)
  show ?thesis
    using grouped_old[OF assms m] by (simp only: group_step_old[OF xs])
qed

lemma foldl_group_step_grouped:
  "grouped S d \<Longrightarrow> set xs \<subseteq> S \<Longrightarrow> grouped S (foldl group_step d xs)"
  by (induction xs arbitrary: d) (simp_all add: group_step_grouped)

lemma foldl_append_concat: "foldl (\<lambda>acc x. acc @ h x) acc xs = acc @ concat (map h xs)"
  by (induction xs arbitrary: acc) simp_all

subsection \<open>Tier B\<close>
lemma py_sorted_reverse_set: "set (py_sorted_reverse f xs) = set xs"
  by (simp add: py_sorted_reverse_def)

lemma deduplicate_phone_numbers_cases:
  "xs \<noteq> [] \<Longrightarrow> \<exists>b \<in> set xs. deduplicate_phone_numbers xs = [b]"
proof -
  assume ne: "xs \<noteq> []"
  obtain b bs where s: "py_sorted_reverse confidence xs = b # bs"
    using ne py_sorted_reverse_set[of confidence xs] by (cases "py_sorted_reverse confidence xs") auto
  then have "b \<in> set xs" using py_sorted_reverse_set[of confidence xs] by auto
  moreover have "deduplicate_phone_numbers xs = [b]"
  proof -
    obtain y ys where xs: "xs = y # ys" using ne by (cases xs) auto
    have "deduplicate_phone_numbers xs
            = (case py_sorted_reverse confidence xs of [] \<Rightarrow> [] | b # _ \<Rightarrow> [b])"
      unfolding xs by (simp add: deduplicate_phone_numbers_def)
    then show ?thesis by (simp add: s)
  qed
  ultimately show ?thesis by blast
qed

lemma deduplicate_phone_numbers_single: "deduplicate_phone_numbers [b] = [b]"
  by (simp add: deduplicate_phone_numbers_def py_sorted_reverse_def)

lemma deduplicate_contact_info_email:
  "deduplicate_contact_info ratio xs ''email''
     = foldl (greedy_step (\<lambda>f e. norm_value f = norm_value e) False) [] xs"
  by (simp add: deduplicate_contact_info_def contact_step_email)

lemma deduplicate_contact_info_address:
  "deduplicate_contact_info ratio xs ''address''
     = foldl (greedy_step (\<lambda>f e. norm_value f = norm_value e
                                 \<or> 85 < ratio (norm_value f) (norm_value e)) True) [] xs"
  by (simp add: deduplicate_contact_info_def contact_step_address)

lemma dedup_group_greedy:
  "t \<noteq> ''phone_number'' \<Longrightarrow>
   dedup_group ratio (t, g) = foldl (greedy_step (group_relation ratio t) (t \<noteq> ''email'')) [] g"
proof -
  assume p: "t \<noteq> ''phone_number''"
  have r1: "group_relation ratio ''email'' = (\<lambda>f e. norm_value f = norm_value e)"
    by (intro ext) (simp add: group_relation_def)
  have r2: "group_relation ratio ''address''
      = (\<lambda>f e. norm_value f = norm_value e \<or> 85 < ratio (norm_value f) (norm_value e))"
    by (intro ext) (simp add: group_relation_def)
  have r3: "t \<noteq> ''email'' \<Longrightarrow> t \<noteq> ''address'' \<Longrightarrow> group_relation ratio t = similar ratio"
    by (intro ext) (simp add: group_relation_def)
  consider "t = ''email''" | "t = ''address''" | "t \<noteq> ''email'' \<and> t \<noteq> ''address''" by blast
  then show ?thesis
  proof cases
    case 1
    then show ?thesis
      by (simp add: dedup_group_def deduplicate_contact_info_email r1)
  next
    case 2
    then show ?thesis
      by (simp add: dedup_group_def deduplicate_contact_info_address r2)
  next
    case 3
    then show ?thesis using p
      by (simp add: dedup_group_def deduplicate_facts_foldl r3)
  qed
qed

lemma dedup_group_subset: "g \<noteq> [] \<Longrightarrow> set (dedup_group ratio (t, g)) \<subseteq> set g"
proof (cases "t = ''phone_number''")
  case True
  assume "g \<noteq> []"
  then show ?thesis using True deduplicate_phone_numbers_cases[of g]
    by (auto simp: dedup_group_def)
next
  case False
  then show ?thesis
    using foldl_greedy_set[of "group_relation ratio t" "t \<noteq> ''email''" "[]" g]
    by (simp add: dedup_group_greedy)
qed

lemma dedup_group_nonempty: "g \<noteq> [] \<Longrightarrow> dedup_group ratio (t, g) \<noteq> []"
proof (cases "t = ''phone_number''")
  case True
  assume "g \<noteq> []"
  then show ?thesis using True deduplicate_phone_numbers_cases[of g]
    by (auto simp: dedup_group_def)
next
  case False
  assume "g \<noteq> []"
  then show ?thesis using False
    by (simp add: dedup_group_greedy foldl_greedy_nonempty)
qed

lemma group_relation_sym:
  assumes c: "similarity_consistent ratio X"
    and sub: "set g \<subseteq> set X" and ty: "\<forall>f \<in> set g. dtype (detail f) = t"
  shows "\<forall>a \<in> set g. \<forall>b \<in> set g. group_relation ratio t a b \<longrightarrow> group_relation ratio t b a"
proof (intro ballI impI)
  fix a b assume ab: "a \<in> set g" "b \<in> set g" "group_relation ratio t a b"
  have s: "similar ratio a b \<Longrightarrow> similar ratio b a"
    using c ab(1,2) sub unfolding similarity_consistent_def by blast
  have e: "similar ratio a b = (85 < ratio (norm_value a) (norm_value b))"
          "similar ratio b a = (85 < ratio (norm_value b) (norm_value a))"
    using ty ab(1,2) by (simp_all add: similar_def)
  show "group_relation ratio t b a"
  proof (cases "t = ''email''")
    case True
    then show ?thesis using ab(3) by (simp add: group_relation_def)
  next
    case False
    note ne = this
    show ?thesis
    proof (cases "t = ''address''")
      case True
      then have "norm_value a = norm_value b \<or> similar ratio a b"
        using ab(3) by (simp add: group_relation_def e)
      then have "norm_value b = norm_value a \<or> similar ratio b a" using s by auto
      then show ?thesis using True by (simp add: group_relation_def e)
    next
      case False
      then show ?thesis using ne ab(3) s by (simp add: group_relation_def)
    qed
  qed
qed

lemma group_relation_trans:
  assumes c: "similarity_consistent ratio X"
    and sub: "set g \<subseteq> set X" and ty: "\<forall>f \<in> set g. dtype (detail f) = t"
  shows "\<forall>a \<in> set g. \<forall>b \<in> set g. \<forall>c \<in> set g.
           group_relation ratio t a b \<and> group_relation ratio t b c \<longrightarrow> group_relation ratio t a c"
proof (intro ballI impI)
  fix a b d assume m: "a \<in> set g" "b \<in> set g" "d \<in> set g"
    and r: "group_relation ratio t a b \<and> group_relation ratio t b d"
  have s: "similar ratio a b \<Longrightarrow> similar ratio b d \<Longrightarrow> similar ratio a d"
    using c m sub unfolding similarity_consistent_def by blast
  have e: "similar ratio a b = (85 < ratio (norm_value a) (norm_value b))"
          "similar ratio b d = (85 < ratio (norm_value b) (norm_value d))"
          "similar ratio a d = (85 < ratio (norm_value a) (norm_value d))"
    using ty m by (simp_all add: similar_def)
  show "group_relation ratio t a d"
  proof (cases "t = ''email''")
    case True
    then show ?thesis using r by (simp add: group_relation_def)
  next
    case False
    note ne = this
    show ?thesis
    proof (cases "t = ''address''")
      case False
      then show ?thesis using ne r s by (simp add: group_relation_def)
    next
      case True
      from r True have ab: "norm_value a = norm_value b \<or> similar ratio a b"
        and bd: "norm_value b = norm_value d \<or> similar ratio b d"
        by (simp_all add: group_relation_def e)
      have "norm_value a = norm_value d \<or> similar ratio a d"
      proof (cases "norm_value a = norm_value b")
        case True
        then show ?thesis using bd e by auto
      next
        case False
        then have sab: "similar ratio a b" using ab by simp
        show ?thesis
        proof (cases "norm_value b = norm_value d")
          case True
          then show ?thesis using sab e by auto
        next
          case False
          then show ?thesis using sab bd s by simp
        qed
      qed
      then show ?thesis using True by (simp add: group_relation_def e)
    qed
  qed
qed

lemma dedup_group_idempotent:
  assumes c: "similarity_consistent ratio X"
    and sub: "set g \<subseteq> set X" and ty: "\<forall>f \<in> set g. dtype (detail f) = t" and ne: "g \<noteq> []"
  shows "dedup_group ratio (t, dedup_group ratio (t, g)) = dedup_group ratio (t, g)"
proof (cases "t = ''phone_number''")
  case True
  from deduplicate_phone_numbers_cases[OF ne] obtain b where "deduplicate_phone_numbers g = [b]"
    by blast
  then show ?thesis using True by (simp add: dedup_group_def deduplicate_phone_numbers_single)
next
  case False
  show ?thesis
    unfolding dedup_group_greedy[OF False]
    by (rule foldl_greedy_idempotent[OF group_relation_sym[OF c sub ty]
                                       group_relation_trans[OF c sub ty]])
qed

lemma deduplicate_facts_enhanced_concat:
  "deduplicate_facts_enhanced ratio X layer
     = concat (map (dedup_group ratio) (foldl group_step [] X))"
  by (simp add: deduplicate_facts_enhanced_def foldl_append_concat)

lemma grouped_empty: "grouped S []"
  by (simp add: grouped_def)

lemma grouped_input: "grouped (set X) (foldl group_step [] X)"
  by (rule foldl_group_step_grouped[OF grouped_empty]) simp

lemma deduped_groups_blocks:
  assumes G: "grouped S gs"
  shows "foldl group_step [] (concat (map snd (map (\<lambda>p. (fst p, dedup_group ratio p)) gs)))
           = map (\<lambda>p. (fst p, dedup_group ratio p)) gs"
proof -
  define hs where "hs = map (\<lambda>p. (fst p, dedup_group ratio p)) gs"
  have k: "map fst hs = map fst gs" by (simp add: hs_def comp_def)
  have d: "distinct (map fst hs)" using grouped_distinct[OF G] by (simp only: k)
  have hprop: "\<forall>t h. (t, h) \<in> set hs \<longrightarrow> h \<noteq> [] \<and> (\<forall>f \<in> set h. dtype (detail f) = t)"
  proof (intro allI impI)
    fix t h assume "(t, h) \<in> set hs"
    then obtain p where p: "p \<in> set gs" "(t, h) = (fst p, dedup_group ratio p)"
      unfolding hs_def by (simp only: set_map) blast
    obtain g where pg: "p = (t, g)" using p(2) by (cases p) simp
    have h: "h = dedup_group ratio (t, g)" using p(2) pg by simp
    have g: "g \<noteq> []" "\<forall>f \<in> set g. dtype (detail f) = t \<and> f \<in> S"
      using grouped_group[OF G, of t g] p(1) pg by simp_all
    have "set h \<subseteq> set g" unfolding h by (rule dedup_group_subset[OF g(1)])
    moreover have "h \<noteq> []" unfolding h by (rule dedup_group_nonempty[OF g(1)])
    ultimately show "h \<noteq> [] \<and> (\<forall>f \<in> set h. dtype (detail f) = t)" using g(2) by blast
  qed
  have i: "fst ` set [] \<inter> fst ` set hs = {}" by simp
  have "foldl group_step [] (concat (map snd hs)) = [] @ hs"
    by (rule foldl_group_step_blocks[OF d i hprop])
  then show ?thesis unfolding hs_def by simp
qed

lemma dedup_groups_idempotent:
  assumes c: "similarity_consistent ratio X" and G: "grouped (set X) gs"
  shows "map (\<lambda>p. dedup_group ratio (fst p, dedup_group ratio p)) gs
           = map (dedup_group ratio) gs"
proof (rule map_cong[OF refl])
  fix p assume m: "p \<in> set gs"
  obtain t g where p: "p = (t, g)" by (cases p)
  have g: "g \<noteq> []" "\<forall>f \<in> set g. dtype (detail f) = t \<and> f \<in> set X"
    using grouped_group[OF G, of t g] m p by simp_all
  have a: "\<forall>f \<in> set g. dtype (detail f) = t" using g(2) by blast
  have b: "set g \<subseteq> set X" using g(2) by blast
  show "dedup_group ratio (fst p, dedup_group ratio p) = dedup_group ratio p"
    unfolding p fst_conv by (rule dedup_group_idempotent[OF c b a g(1)])
qed

text \<open>
  Claim C3 as stated fails: Tier B is not idempotent when the similarity score is not
  transitive. Three \<^verbatim>\<open>address\<close> candidates whose normalised values score 80 (first against
  second), 90 (third against first) and 90 (third against second): the first pass replaces
  the first candidate by the third and keeps the second, the second pass then drops the
  third as a duplicate of the second.
\<close>

theorem tier_b_not_idempotent_counterexample:
  "deduplicate_facts_enhanced fuzz_ratio
     [candidate ''address'' ''12 Hill AA'' (4 / 5) [],
      candidate ''address'' ''12 Hill BB'' (9 / 10) [],
      candidate ''address'' ''12 Hill AB'' (9 / 10) []] ''Layer1''
   = [candidate ''address'' ''12 Hill BB'' (9 / 10) [],
      candidate ''address'' ''12 Hill AB'' (9 / 10) []]
   \<and> deduplicate_facts_enhanced fuzz_ratio
       (deduplicate_facts_enhanced fuzz_ratio
          [candidate ''address'' ''12 Hill AA'' (4 / 5) [],
           candidate ''address'' ''12 Hill BB'' (9 / 10) [],
           candidate ''address'' ''12 Hill AB'' (9 / 10) []] ''Layer1'') ''Layer1''
   = [candidate ''address'' ''12 Hill BB'' (9 / 10) []]"
proof -
  note ev = deduplicate_facts_enhanced_def group_step_def dict_contains_def dict_append_def
    dict_get_def dedup_group_def deduplicate_contact_info_def contact_step_def
    norm_value_def py_strip_def py_lower_def py_lower_char_def py_isspace_def
    fuzz_ratio_def py_round_div_def candidate_def Let_def
  have a: "deduplicate_facts_enhanced fuzz_ratio
     [candidate ''address'' ''12 Hill AA'' (4 / 5) [],
      candidate ''address'' ''12 Hill BB'' (9 / 10) [],
      candidate ''address'' ''12 Hill AB'' (9 / 10) []] ''Layer1''
   = [candidate ''address'' ''12 Hill BB'' (9 / 10) [],
      candidate ''address'' ''12 Hill AB'' (9 / 10) []]"
    by (simp add: ev)
  have b: "deduplicate_facts_enhanced fuzz_ratio
     [candidate ''address'' ''12 Hill BB'' (9 / 10) [],
      candidate ''address'' ''12 Hill AB'' (9 / 10) []] ''Layer1''
   = [candidate ''address'' ''12 Hill BB'' (9 / 10) []]"
    by (simp add: ev)
  show ?thesis unfolding a b by simp
qed

text \<open>
  Claim C3, amended. Tier B deduplication is idempotent on every per-layer list of
  candidates on which similarity (same type and a score above 85 between the normalised
  values) is symmetric and transitive.
\<close>

theorem tier_b_idempotent_when_consistent:
  assumes c: "similarity_consistent ratio X"
  shows "deduplicate_facts_enhanced ratio (deduplicate_facts_enhanced ratio X layer) layer
           = deduplicate_facts_enhanced ratio X layer"
proof -
  define gs where "gs = foldl group_step [] X"
  define hs where "hs = map (\<lambda>p. (fst p, dedup_group ratio p)) gs"
  have G: "grouped (set X) gs" unfolding gs_def by (rule grouped_input)
  have sh: "map snd hs = map (dedup_group ratio) gs" by (simp add: hs_def comp_def)
  have e1: "deduplicate_facts_enhanced ratio X layer = concat (map snd hs)"
    unfolding sh gs_def by (rule deduplicate_facts_enhanced_concat)
  have e2: "foldl group_step [] (concat (map snd hs)) = hs"
    unfolding hs_def by (rule deduped_groups_blocks[OF G])
  have "deduplicate_facts_enhanced ratio (concat (map snd hs)) layer
          = concat (map (dedup_group ratio) hs)"
    unfolding deduplicate_facts_enhanced_concat e2 ..
  also have "map (dedup_group ratio) hs
               = map (\<lambda>p. dedup_group ratio (fst p, dedup_group ratio p)) gs"
    by (simp add: hs_def comp_def)
  also have "\<dots> = map (dedup_group ratio) gs" by (rule dedup_groups_idempotent[OF c G])
  also have "\<dots> = map snd hs" by (simp only: sh)
  finally show ?thesis by (simp only: e1)
qed

theorem tier_b_idempotent_when_consistent_witness:
  "deduplicate_facts_enhanced fuzz_ratio
     [candidate ''address'' ''12 Hill AA'' (4 / 5) [],
      candidate ''address'' ''12 Hill AB'' (9 / 10) [],
      candidate ''name'' ''Rahul Singh'' (9 / 10) []] ''Layer1''
   = [candidate ''address'' ''12 Hill AB'' (9 / 10) [],
      candidate ''name'' ''Rahul Singh'' (9 / 10) []]
   \<and> deduplicate_facts_enhanced fuzz_ratio
       [candidate ''address'' ''12 Hill AB'' (9 / 10) [],
        candidate ''name'' ''Rahul Singh'' (9 / 10) []] ''Layer1''
   = [candidate ''address'' ''12 Hill AB'' (9 / 10) [],
      candidate ''name'' ''Rahul Singh'' (9 / 10) []]"
proof -
  define A where "A = candidate ''address'' ''12 Hill AA'' (4 / 5) []"
  define B where "B = candidate ''address'' ''12 Hill AB'' (9 / 10) []"
  define N where "N = candidate ''name'' ''Rahul Singh'' (9 / 10) []"
  note e = similar_def norm_value_def py_strip_def py_lower_def py_lower_char_def py_isspace_def
    fuzz_ratio_def py_round_div_def candidate_def A_def B_def N_def
  have s1: "similar fuzz_ratio A A" "similar fuzz_ratio A B"
           "similar fuzz_ratio B A" "similar fuzz_ratio B B" "similar fuzz_ratio N N"
    by (simp_all add: e)
  have s2: "\<not> similar fuzz_ratio A N" "\<not> similar fuzz_ratio B N"
           "\<not> similar fuzz_ratio N A" "\<not> similar fuzz_ratio N B"
    by (simp_all add: similar_def candidate_def A_def B_def N_def)
  have h: "similarity_consistent fuzz_ratio [A, B, N]"
    unfolding similarity_consistent_def by (simp add: s1 s2)
  have r: "deduplicate_facts_enhanced fuzz_ratio [A, B, N] ''Layer1'' = [B, N]"
    unfolding A_def B_def N_def
    by (simp add: deduplicate_facts_enhanced_def group_step_def dict_contains_def
          dict_append_def dict_get_def dedup_group_def deduplicate_contact_info_def
          contact_step_def deduplicate_facts_def dedup_step_def norm_value_def py_strip_def
          py_lower_def py_lower_char_def py_isspace_def fuzz_ratio_def py_round_div_def
          candidate_def Let_def)
  from tier_b_idempotent_when_consistent[OF h, of "''Layer1''"]
  have "deduplicate_facts_enhanced fuzz_ratio [B, N] ''Layer1'' = [B, N]"
    unfolding r .
  then show ?thesis using r unfolding A_def B_def N_def by simp
qed

section \<open>Properties of the Persistence Adapter\<close>

subsection \<open>The fallback results of store_in_db\<close>

lemma store_in_db_disabled:
  "store_in_db format_fact False extracted_nodes user_id d = (all_nodes_result extracted_nodes, d)"
  by (simp add: store_in_db_def)

lemma store_in_db_raised:
  "fst (store_layers format_fact user_id extracted_nodes (0, 0, 0, [], d)) \<noteq> None \<Longrightarrow>
   fst (store_in_db format_fact True extracted_nodes user_id d) = all_nodes_result extracted_nodes"
  by (auto simp: store_in_db_def split: prod.splits option.splits)

subsection \<open>A run in which every insert succeeds\<close>

lemma show_nat_nonempty: "show_nat n \<noteq> []"
  by (subst show_nat.simps) simp

lemma store_memory_node_succeeds:
  "client d \<Longrightarrow> faults d = [] \<Longrightarrow>
   \<exists>d'. store_memory_node d u l t c cf k ev m p = (Some (show_nat (length (memory_nodes d))), d')
        \<and> client d' \<and> faults d' = []"
  by (simp add: store_memory_node_def is_connected_def request_def)

lemma store_node_succeeds:
  assumes "client d" "faults d = []" "3 / 4 \<le> confidence n"
  shows "\<exists>d'. store_node format_fact u layer no (s, dup, r, newly, d) n
               = (Suc s, dup, r, dict_append layer n newly, d')
             \<and> client d' \<and> faults d' = []"
proof -
  from store_memory_node_succeeds[OF assms(1,2)]
  obtain d' where "store_memory_node d u no (dtype (detail n)) (dvalue (detail n))
        (format_fact u (dtype (detail n)) (dvalue (detail n))) (confidence n) (evidence n)
        ''initial'' None = (Some (show_nat (length (memory_nodes d))), d')"
     "client d'" "faults d' = []" by blast
  then show ?thesis using assms(3) show_nat_nonempty
    by (simp add: store_node_def Let_def not_less[symmetric])
qed

lemma foldl_store_node_succeeds:
  "\<forall>n \<in> set nodes. 3 / 4 \<le> confidence n \<Longrightarrow> client d \<Longrightarrow> faults d = [] \<Longrightarrow>
   \<exists>s' d'. foldl (store_node format_fact u layer no) (s, dup, r, newly, d) nodes
               = (s', dup, r, foldl (\<lambda>nw n. dict_append layer n nw) newly nodes, d')
             \<and> client d' \<and> faults d' = []"
proof (induction nodes arbitrary: s newly d)
  case Nil
  then show ?case by simp
next
  case (Cons n nodes)
  from store_node_succeeds[OF Cons.prems(2,3), of n format_fact u layer no s dup r newly]
  obtain d1 where d1: "store_node format_fact u layer no (s, dup, r, newly, d) n
               = (Suc s, dup, r, dict_append layer n newly, d1)" "client d1" "faults d1 = []"
    using Cons.prems(1) by auto
  from Cons.IH[OF _ d1(2,3), of "Suc s" "dict_append layer n newly"] Cons.prems(1)
  show ?case using d1(1) by simp
qed

lemma foldl_dict_append_last:
  "k \<notin> fst ` set acc \<Longrightarrow>
   foldl (\<lambda>nw n. dict_append k n nw) (acc @ [(k, pre)]) nodes = acc @ [(k, pre @ nodes)]"
  by (induction nodes arbitrary: pre) (simp_all add: dict_append_def dict_get_last dict_set_last)

lemma store_layers_succeeds:
  "distinct (map fst X) \<Longrightarrow> fst ` set acc \<inter> fst ` set X = {} \<Longrightarrow>
   \<forall>item \<in> set X. layer_number (fst item) \<noteq> None \<and> (\<forall>n \<in> set (snd item). 3 / 4 \<le> confidence n) \<Longrightarrow>
   client d \<Longrightarrow> faults d = [] \<Longrightarrow>
   \<exists>s' d'. store_layers format_fact u X (s, dup, r, acc, d) = (None, (s', dup, r, acc @ X, d'))
           \<and> client d' \<and> faults d' = []"
proof (induction X arbitrary: s acc d)
  case Nil
  then show ?case by simp
next
  case (Cons item X)
  obtain layer nodes where item: "item = (layer, nodes)" by (cases item)
  obtain no where no: "layer_number layer = Some no" using Cons.prems(3) item by auto
  have la: "layer \<notin> fst ` set acc" using Cons.prems(2) item by auto
  have conf: "\<forall>n \<in> set nodes. 3 / 4 \<le> confidence n" using Cons.prems(3) item by auto
  from foldl_store_node_succeeds[OF conf Cons.prems(4,5), of format_fact u layer no s dup r
         "dict_set layer [] acc"]
  obtain s1 d1 where f: "foldl (store_node format_fact u layer no)
        (s, dup, r, dict_set layer [] acc, d) nodes
      = (s1, dup, r, foldl (\<lambda>nw n. dict_append layer n nw) (dict_set layer [] acc) nodes, d1)"
     "client d1" "faults d1 = []" by blast
  have nw: "foldl (\<lambda>nw n. dict_append layer n nw) (dict_set layer [] acc) nodes
              = acc @ [(layer, nodes)]"
    using foldl_dict_append_last[OF la, of "[]" nodes] by (simp add: dict_set_new[OF la])
  have dX: "distinct (map fst X)" using Cons.prems(1) by simp
  have iX: "fst ` set (acc @ [(layer, nodes)]) \<inter> fst ` set X = {}"
    using Cons.prems(1,2) item by auto
  have rX: "\<forall>item \<in> set X. layer_number (fst item) \<noteq> None
              \<and> (\<forall>n \<in> set (snd item). 3 / 4 \<le> confidence n)"
    using Cons.prems(3) by simp
  from Cons.IH[OF dX iX rX f(2,3), of s1]
  obtain s' d' where "store_layers format_fact u X (s1, dup, r, acc @ [(layer, nodes)], d1)
         = (None, (s', dup, r, (acc @ [(layer, nodes)]) @ X, d'))" "client d'" "faults d' = []"
    by blast
  then show ?case using item no f(1) nw by simp
qed

lemma store_in_db_all_written:
  assumes "distinct (map fst X)"
    and "\<forall>item \<in> set X. layer_number (fst item) \<noteq> None \<and> (\<forall>n \<in> set (snd item). 3 / 4 \<le> confidence n)"
    and "client d" "faults d = []"
  shows "newly_stored_nodes (fst (store_in_db format_fact True X u d)) = filter_empty_layers X"
proof -
  have i: "fst ` set [] \<inter> fst ` set X = {}" by simp
  from store_layers_succeeds[OF assms(1) i assms(2,3,4), of format_fact u 0 0 0]
  obtain s' d' where "store_layers format_fact u X (0, 0, 0, [], d) = (None, (s', 0, 0, X, d'))"
    by auto
  then show ?thesis by (simp add: store_in_db_def split: prod.splits)
qed

subsection \<open>The rows a run writes\<close>

lemma rows_from_refl: "rows_from ns d d"
  by (simp add: rows_from_def)

lemma rows_from_trans:
  "rows_from ns d d1 \<Longrightarrow> rows_from ms d1 d2 \<Longrightarrow> set ns \<subseteq> set ks \<Longrightarrow> set ms \<subseteq> set ks
   \<Longrightarrow> rows_from ks d d2"
proof -
  assume a: "rows_from ns d d1" "rows_from ms d1 d2" "set ns \<subseteq> set ks" "set ms \<subseteq> set ks"
  from a(1) obtain r1 where r1: "memory_nodes d1 = memory_nodes d @ r1"
    "\<forall>r \<in> set r1. \<exists>n \<in> set ns. row_of n r" unfolding rows_from_def by blast
  from a(2) obtain r2 where r2: "memory_nodes d2 = memory_nodes d1 @ r2"
    "\<forall>r \<in> set r2. \<exists>n \<in> set ms. row_of n r" unfolding rows_from_def by blast
  have "memory_nodes d2 = memory_nodes d @ (r1 @ r2)" using r1(1) r2(1) by simp
  moreover have "\<forall>r \<in> set (r1 @ r2). \<exists>n \<in> set ks. row_of n r"
    using r1(2) r2(2) a(3,4) by (metis Un_iff set_append subsetD)
  ultimately show ?thesis unfolding rows_from_def by blast
qed

lemma request_memory_nodes: "memory_nodes (snd (request d)) = memory_nodes d"
  by (simp add: request_def split: list.splits)

lemma store_node_rows:
  "store_node format_fact u layer no (s, dup, r, newly, d) n = (s', dup', r', newly', d')
   \<Longrightarrow> rows_from [n] d d'"
proof (cases "confidence n < 3 / 4")
  case True
  assume "store_node format_fact u layer no (s, dup, r, newly, d) n = (s', dup', r', newly', d')"
  then have "d' = d" using True by (simp add: store_node_def)
  then show ?thesis by (simp add: rows_from_refl)
next
  case False
  assume a: "store_node format_fact u layer no (s, dup, r, newly, d) n = (s', dup', r', newly', d')"
  obtain ok d1 where rq: "request d = (ok, d1)" by (cases "request d")
  have m1: "memory_nodes d1 = memory_nodes d" using request_memory_nodes[of d] rq by simp
  show ?thesis
  proof (cases "is_connected d \<and> ok")
    case True
    then have "memory_nodes d' = memory_nodes d @
        [\<lparr>row_user_id = u, row_layer = no, row_fact_type = dtype (detail n),
          row_content = dvalue (detail n),
          row_concluded_fact = format_fact u (dtype (detail n)) (dvalue (detail n)),
          row_confidence = confidence n, row_status = ''pending'',
          row_evidence = evidence n, row_extraction_method = ''initial'',
          row_parent_update_id = None\<rparr>]"
      using a False rq m1 show_nat_nonempty
      by (auto simp: store_node_def store_memory_node_def Let_def split: if_splits)
    then show ?thesis using False unfolding rows_from_def
      by (simp add: row_of_def not_less)
  next
    case False
    then have "memory_nodes d' = memory_nodes d"
      using a rq m1 by (auto simp: store_node_def store_memory_node_def Let_def split: if_splits)
    then show ?thesis unfolding rows_from_def by simp
  qed
qed

lemma foldl_store_node_rows:
  "foldl (store_node format_fact u layer no) (s, dup, r, newly, d) nodes = (s', dup', r', newly', d')
   \<Longrightarrow> rows_from nodes d d'"
proof (induction nodes arbitrary: s dup r newly d)
  case Nil
  then show ?case by (simp add: rows_from_refl)
next
  case (Cons n nodes)
  obtain s1 dup1 r1 newly1 d1 where
    st: "store_node format_fact u layer no (s, dup, r, newly, d) n = (s1, dup1, r1, newly1, d1)"
    by (cases "store_node format_fact u layer no (s, dup, r, newly, d) n")
  have a: "rows_from [n] d d1" using st by (rule store_node_rows)
  have b: "rows_from nodes d1 d'" using Cons.IH[of s1 dup1 r1 newly1 d1] Cons.prems st by simp
  show ?case by (rule rows_from_trans[OF a b]) auto
qed

lemma store_layers_rows:
  "store_layers format_fact u X (s, dup, r, newly, d) = (e, (s', dup', r', newly', d'))
   \<Longrightarrow> rows_from (concat (map snd X)) d d'"
proof (induction X arbitrary: s dup r newly d)
  case Nil
  then show ?case by (simp add: rows_from_refl)
next
  case (Cons item X)
  obtain layer nodes where item: "item = (layer, nodes)" by (cases item)
  show ?case
  proof (cases "layer_number layer")
    case None
    then have "d' = d" using Cons.prems item by simp
    then show ?thesis by (simp add: rows_from_refl)
  next
    case (Some no)
    obtain s1 dup1 r1 newly1 d1 where
      f: "foldl (store_node format_fact u layer no) (s, dup, r, dict_set layer [] newly, d) nodes
            = (s1, dup1, r1, newly1, d1)"
      by (cases "foldl (store_node format_fact u layer no) (s, dup, r, dict_set layer [] newly, d) nodes")
    have a: "rows_from nodes d d1" using f by (rule foldl_store_node_rows)
    have "store_layers format_fact u X (s1, dup1, r1, newly1, d1) = (e, (s', dup', r', newly', d'))"
      using Cons.prems item Some f by simp
    then have b: "rows_from (concat (map snd X)) d1 d'" by (rule Cons.IH)
    show ?thesis using item by (intro rows_from_trans[OF a b]) auto
  qed
qed

lemma get_user_summary_memory_nodes: "memory_nodes (snd (get_user_summary d u)) = memory_nodes d"
  using request_memory_nodes[of d]
  by (cases "request d") (simp add: get_user_summary_def)

lemma store_in_db_rows:
  "rows_from (concat (map snd X)) d (snd (store_in_db format_fact enabled X u d))"
proof (cases enabled)
  case False
  then show ?thesis by (simp add: store_in_db_def rows_from_refl)
next
  case True
  obtain e s' dup' r' newly' d' where
    sl: "store_layers format_fact u X (0, 0, 0, [], d) = (e, (s', dup', r', newly', d'))"
    by (metis prod_cases5)
  have a: "rows_from (concat (map snd X)) d d'" using sl by (rule store_layers_rows)
  show ?thesis
  proof (cases e)
    case None
    have "memory_nodes (snd (store_in_db format_fact enabled X u d)) = memory_nodes d'"
      using True sl None get_user_summary_memory_nodes[of d' u]
      by (cases "get_user_summary d' u") (simp add: store_in_db_def)
    then show ?thesis using a unfolding rows_from_def by simp
  next
    case (Some err)
    then have "snd (store_in_db format_fact enabled X u d) = d'"
      using True sl by (simp add: store_in_db_def)
    then show ?thesis using a by simp
  qed
qed

subsection \<open>The pipeline and the processed marker\<close>

lemma process_json_skip:
  assumes "\<not> force_reprocess" "db_enabled ext" "client (db w)" "fst (request (db w))"
    "dict_contains user_id (processed_files (db w))"
  shows "process_json ratio format_fact model ext input_json user_id force_reprocess w
           = (Inr skipped_notice, w\<lparr>db := snd (request (db w))\<rparr>)"
proof -
  obtain ok d' where rq: "request (db w) = (ok, d')" by (cases "request (db w)")
  have pf: "processed_files d' = processed_files (db w)"
    using rq by (auto simp: request_def split: list.splits)
  have "is_file_processed (db w) user_id = (True, d')"
    using assms rq pf by (simp add: is_file_processed_def is_connected_def)
  then show ?thesis using assms(1,2) rq by (simp add: process_json_def)
qed

lemma request_preserves:
  "memory_nodes (snd (request d)) = memory_nodes d"
  "processed_files (snd (request d)) = processed_files d"
  "client (snd (request d)) = client d"
  by (simp_all add: request_def split: list.splits)

lemma request_fault_free: "fault_free d \<Longrightarrow> request d = (True, d)"
  by (simp add: fault_free_def request_def)

lemma store_memory_node_fault_free:
  "fault_free d \<Longrightarrow> fault_free (snd (store_memory_node d u l t c cf k ev m p))"
  by (simp add: store_memory_node_def is_connected_def request_fault_free)
     (simp add: fault_free_def)

lemma store_node_fault_free:
  "fault_free (snd (snd (snd (snd st)))) \<Longrightarrow>
   fault_free (snd (snd (snd (snd (store_node format_fact u layer no st n)))))"
proof -
  assume a: "fault_free (snd (snd (snd (snd st))))"
  obtain s dup r newly d where st: "st = (s, dup, r, newly, d)" by (metis prod_cases5)
  have d: "fault_free d" using a st by simp
  show ?thesis
  proof (cases "confidence n < 3 / 4")
    case True
    then show ?thesis using d st by (simp add: store_node_def)
  next
    case False
    obtain i d1 where sm: "store_memory_node d u no (dtype (detail n)) (dvalue (detail n))
        (format_fact u (dtype (detail n)) (dvalue (detail n))) (confidence n) (evidence n)
        ''initial'' None = (i, d1)" by (metis surj_pair)
    have "fault_free d1" using store_memory_node_fault_free[OF d] sm by (metis snd_conv)
    then show ?thesis using False st sm by (simp add: store_node_def Let_def)
  qed
qed

lemma foldl_store_node_fault_free:
  "fault_free (snd (snd (snd (snd st)))) \<Longrightarrow>
   fault_free (snd (snd (snd (snd (foldl (store_node format_fact u layer no) st nodes)))))"
  by (induction nodes arbitrary: st) (simp_all add: store_node_fault_free)

lemma store_layers_fault_free:
  "fault_free (snd (snd (snd (snd st)))) \<Longrightarrow>
   fault_free (snd (snd (snd (snd (snd (store_layers format_fact u X st))))))"
proof (induction X arbitrary: st)
  case Nil
  then show ?case by simp
next
  case (Cons item X)
  obtain layer nodes where item: "item = (layer, nodes)" by (cases item)
  obtain s dup r newly d where st: "st = (s, dup, r, newly, d)" by (metis prod_cases5)
  show ?case
  proof (cases "layer_number layer")
    case None
    then show ?thesis using Cons.prems item st by simp
  next
    case (Some no)
    have "fault_free (snd (snd (snd (snd (foldl (store_node format_fact u layer no)
            (s, dup, r, dict_set layer [] newly, d) nodes)))))"
      using Cons.prems st by (intro foldl_store_node_fault_free) simp
    then show ?thesis using Cons.IH item st Some by simp
  qed
qed

lemma store_in_db_fault_free:
  assumes "fault_free d"
  shows "fault_free (snd (store_in_db format_fact enabled X u d))"
proof (cases enabled)
  case False
  then show ?thesis using assms by (simp add: store_in_db_def)
next
  case True
  obtain e s' dup' r' newly' d' where
    sl: "store_layers format_fact u X (0, 0, 0, [], d) = (e, (s', dup', r', newly', d'))"
    by (metis prod_cases5)
  have f: "fault_free d'"
    using store_layers_fault_free[of "(0, 0, 0, [], d)" format_fact u X] assms sl by simp
  show ?thesis
  proof (cases e)
    case None
    have "get_user_summary d' u = (Some (length (filter (\<lambda>r. row_user_id r = u) (memory_nodes d'))), d')"
      using f by (simp add: get_user_summary_def is_connected_def request_fault_free)
         (simp add: fault_free_def)
    then show ?thesis using True sl None f by (simp add: store_in_db_def)
  next
    case (Some err)
    then show ?thesis using True sl f by (simp add: store_in_db_def)
  qed
qed

lemma dict_contains_dict_set: "dict_contains k (dict_set k v d)"
  by (induction d) (force simp: dict_contains_def)+

lemma mark_file_processed_fault_free:
  "fault_free d \<Longrightarrow> fault_free (snd (mark_file_processed d u n))
     \<and> dict_contains u (processed_files (snd (mark_file_processed d u n)))"
  by (simp add: mark_file_processed_def is_connected_def request_fault_free dict_contains_dict_set)
     (simp add: fault_free_def)

lemma call_llm_for_extraction_db:
  "db (snd (call_llm_for_extraction ratio model chunk u w)) = db w"
  by (simp add: call_llm_for_extraction_def Let_def split: option.splits)

lemma process_chunk_db: "db (snd (process_chunk ratio model u st chunk)) = db (snd st)"
proof -
  obtain a w where st: "st = (a, w)" by (cases st)
  obtain x w1 where c: "call_llm_for_extraction ratio model chunk u w = (x, w1)" by (metis surj_pair)
  have "db w1 = db w" using call_llm_for_extraction_db[of ratio model chunk u w] c by simp
  then show ?thesis using st c by (simp add: process_chunk_def)
qed

lemma foldl_process_chunk_db:
  "db (snd (foldl (process_chunk ratio model u) st chunks)) = db (snd st)"
  by (induction chunks arbitrary: st) (simp_all add: process_chunk_db)

lemma deduplicate_with_llm_db:
  "db (snd (deduplicate_with_llm ratio model x u w)) = db w"
  by (simp add: deduplicate_with_llm_def Let_def)

lemma process_json_marks:
  assumes ff: "fault_free (db w)" and en: "db_enabled ext"
    and run: "process_json ratio format_fact model ext input_json user_id force_reprocess w
                = (Inr result, w1)"
    and ne: "result \<noteq> []"
  shows "fault_free (db w1) \<and> dict_contains user_id (processed_files (db w1))"
proof -
  obtain skip w0 where g: "(if \<not> force_reprocess \<and> db_enabled ext
            then (case is_file_processed (db w) user_id of
                    (already_processed, d) \<Rightarrow> (already_processed, w\<lparr>db := d\<rparr>))
            else (False, w)) = (skip, w0)" by (metis surj_pair)
  have ifp: "is_file_processed (db w) user_id
               = (dict_contains user_id (processed_files (db w)), db w)"
    using ff by (simp add: is_file_processed_def is_connected_def request_fault_free)
       (simp add: fault_free_def)
  have w0: "db w0 = db w" "skip \<longrightarrow> dict_contains user_id (processed_files (db w))"
    using g ifp by (auto split: if_splits)
  show ?thesis
  proof (cases skip)
    case True
    then have "w1 = w0" using run g by (simp add: process_json_def)
    then show ?thesis using True w0 ff by simp
  next
    case False
    obtain chunks where ch: "chunk_messages (chunk_size ext) (overlap_size ext)
                               (flatten_messages input_json) = Inr chunks"
      using run g False by (cases "chunk_messages (chunk_size ext) (overlap_size ext)
                               (flatten_messages input_json)") (auto simp: process_json_def)
    obtain ae w2 where fo: "foldl (process_chunk ratio model user_id) ([], w0) chunks = (ae, w2)"
      by (metis surj_pair)
    have w2: "db w2 = db w" using foldl_process_chunk_db[of ratio model user_id "([], w0)" chunks] fo w0
      by simp
    have ae: "ae \<noteq> []"
    proof
      assume "ae = []"
      then have "result = []" using run g False ch fo by (simp add: process_json_def)
      then show False using ne by simp
    qed
    obtain dd w3 where de: "deduplicate_with_llm ratio model (merge_extracted_data ratio ae) user_id w2
                              = (dd, w3)" by (metis surj_pair)
    have w3: "db w3 = db w"
      using deduplicate_with_llm_db[of ratio model "merge_extracted_data ratio ae" user_id w2] de w2
      by simp
    obtain sr d4 where sd: "store_in_db format_fact (db_enabled ext) dd user_id (db w3) = (sr, d4)"
      by (metis surj_pair)
    have d4: "fault_free d4"
      using store_in_db_fault_free[of "db w3" format_fact "db_enabled ext" dd user_id] ff w3 sd
      by simp
    have "db w1 = snd (mark_file_processed d4 user_id (count_nodes dd))"
      using run g False ch fo ae de sd en by (auto simp: process_json_def Let_def)
    then show ?thesis using mark_file_processed_fault_free[OF d4] by simp
  qed
qed

subsection \<open>A concrete run\<close>

lemma example_messages:
  "flatten_messages example_input
     = [\<lparr>msg_message_id = Some ''m1'', msg_text = Some ''My phone number is 9876543210'',
         sender = ''User'', conversation_id = 0, msg_id = ''m1''\<rparr>]"
  by (simp add: flatten_messages_def example_input_def flatten_conversation_def make_message_def
        enumerate_eq_zip)

lemma example_chunks:
  "chunk_messages 100 20 [m] = Inr [[m]]"
  by (simp add: chunk_messages_def py_range0_def py_slice_def py_clip_def)

lemma example_extraction:
  "process_chunk fuzz_ratio example_model u ([], \<lparr>db = d, llm_calls = 0\<rparr>) [m]
     = ([[(''Layer1'', [candidate ''phone_number'' ''9876543210'' (9 / 10) []])]],
        \<lparr>db = d, llm_calls = Suc 0\<rparr>)"
  by (simp add: process_chunk_def call_llm_for_extraction_def example_model_def Let_def
        validate_extractions_def validate_layer_def validate_node_def candidate_def
        travel_types_def relationship_types_def)

lemma example_merge:
  "merge_extracted_data fuzz_ratio
     [[(''Layer1'', [candidate ''phone_number'' ''9876543210'' (9 / 10) []])]]
   = [(''Layer1'', [candidate ''phone_number'' ''9876543210'' (9 / 10) []]),
      (''Layer2'', []), (''Layer3'', []), (''Layer4'', [])]"
  by (simp add: merge_extracted_data_layers layer_names_def layer_list_def dict_get_def
        deduplicate_facts_def dedup_step_def)

lemma example_dedup:
  "deduplicate_with_llm fuzz_ratio example_model
     [(''Layer1'', [candidate ''phone_number'' ''9876543210'' (9 / 10) []]),
      (''Layer2'', []), (''Layer3'', []), (''Layer4'', [])] u \<lparr>db = d, llm_calls = Suc 0\<rparr>
   = ([(''Layer1'', [candidate ''phone_number'' ''9876543210'' (9 / 10) []]),
       (''Layer2'', []), (''Layer3'', []), (''Layer4'', [])], \<lparr>db = d, llm_calls = Suc (Suc 0)\<rparr>)"
  by (simp add: deduplicate_with_llm_def example_model_def Let_def apply_fallback_deduplication_def
        deduplicate_facts_enhanced_def group_step_def dict_contains_def dict_append_def dict_get_def
        dedup_group_def deduplicate_phone_numbers_def py_sorted_reverse_def candidate_def)

lemma layer_numbers:
  "layer_number ''Layer1'' = Some 1" "layer_number ''Layer2'' = Some 2"
  "layer_number ''Layer3'' = Some 3" "layer_number ''Layer4'' = Some 4"
  "layer_number ''notes'' = None"
  by (simp_all add: layer_number_def py_remove_def py_int_def int_isspace_def is_digit_def Let_def)

lemma example_storage:
  "store_in_db example_format True
     [(''Layer1'', [candidate ''phone_number'' ''9876543210'' (9 / 10) []]),
      (''Layer2'', []), (''Layer3'', []), (''Layer4'', [])] ''u1'' example_store
   = (\<lparr>newly_stored_nodes = [(''Layer1'', [candidate ''phone_number'' ''9876543210'' (9 / 10) []])],
       stats = \<lparr>stored = 1, duplicate = 0, low_confidence_rejected = 0\<rparr>\<rparr>,
      example_store\<lparr>memory_nodes :=
        [\<lparr>row_user_id = ''u1'', row_layer = 1, row_fact_type = ''phone_number'',
          row_content = ''9876543210'',
          row_concluded_fact = ''phone_number of u1 is 9876543210'',
          row_confidence = 9 / 10, row_status = ''pending'', row_evidence = [],
          row_extraction_method = ''initial'', row_parent_update_id = None\<rparr>]\<rparr>)"
  by (simp add: store_in_db_def layer_numbers store_node_def store_memory_node_def
        is_connected_def request_def example_store_def candidate_def Let_def show_nat_nonempty
        dict_append_def dict_get_def get_user_summary_def filter_empty_layers_def
        example_format_def)

lemma example_run:
  "process_json fuzz_ratio example_format example_model example_extractor example_input ''u1'' False
     \<lparr>db = example_store, llm_calls = 0\<rparr>
   = (Inr [(''Layer1'', Nodes [candidate ''phone_number'' ''9876543210'' (9 / 10) []])],
      \<lparr>db = example_store\<lparr>memory_nodes :=
        [\<lparr>row_user_id = ''u1'', row_layer = 1, row_fact_type = ''phone_number'',
          row_content = ''9876543210'',
          row_concluded_fact = ''phone_number of u1 is 9876543210'',
          row_confidence = 9 / 10, row_status = ''pending'', row_evidence = [],
          row_extraction_method = ''initial'', row_parent_update_id = None\<rparr>],
        processed_files := [(''u1'', 1)]\<rparr>, llm_calls = 2\<rparr>)"
proof -
  have g: "is_file_processed example_store ''u1'' = (False, example_store)"
    by (simp add: is_file_processed_def is_connected_def request_def example_store_def
          dict_contains_def)
  have mk: "\<And>rows. snd (mark_file_processed (example_store\<lparr>memory_nodes := rows\<rparr>) ''u1'' (Suc 0))
              = example_store\<lparr>memory_nodes := rows, processed_files := [(''u1'', Suc 0)]\<rparr>"
    by (simp add: mark_file_processed_def is_connected_def request_def example_store_def)
  have cn: "count_nodes [(''Layer1'', [candidate ''phone_number'' ''9876543210'' (9 / 10) []]),
       (''Layer2'', []), (''Layer3'', []), (''Layer4'', [])] = Suc 0"
    by (simp add: count_nodes_def)
  show ?thesis
    unfolding process_json_def
    by (simp add: example_extractor_def g example_messages example_chunks example_extraction
          example_merge example_dedup example_storage cn mk)
qed

text \<open>
  Claim C6 as stated fails: nothing in the Validator, in either deduplication tier or in
  \<^verbatim>\<open>store_in_db\<close> looks at the length of the evidence list. In the concrete run above the
  model reports a phone number with an empty evidence list; the pipeline writes it, and
  the only row of the store has no evidence entry.
\<close>

theorem empty_evidence_persisted_counterexample:
  "map row_evidence
     (memory_nodes (db (snd (process_json fuzz_ratio example_format example_model example_extractor
                               example_input ''u1'' False \<lparr>db = example_store, llm_calls = 0\<rparr>))))
   = [[]]"
  by (simp add: example_run)

text \<open>
  Claim C6, amended. Every row that \<^verbatim>\<open>store_in_db\<close> writes carries, unchanged, the evidence
  list of an input candidate whose confidence is at least 0.75; hence every row written
  has at least one evidence entry whenever every input candidate has one (and a candidate
  with an empty evidence list is written with none). On the Tier A path a returned fact
  without an evidence list gets exactly one placeholder entry, and a fact with an evidence
  list keeps a list of the same length, an empty one included.
\<close>

theorem persisted_rows_carry_candidate_evidence:
  "(\<exists>rows. memory_nodes (snd (store_in_db format_fact enabled extracted_nodes user_id d))
              = memory_nodes d @ rows
           \<and> (\<forall>r \<in> set rows. \<exists>item \<in> set extracted_nodes. \<exists>n \<in> set (snd item).
                  row_evidence r = evidence n \<and> 3 / 4 \<le> confidence n)
           \<and> ((\<forall>item \<in> set extracted_nodes. \<forall>n \<in> set (snd item). evidence n \<noteq> [])
                \<longrightarrow> (\<forall>r \<in> set rows. row_evidence r \<noteq> [])))
   \<and> (\<forall>n. convert_fact fct = Some n \<longrightarrow>
          (case lf_evidence fct of
             None \<Rightarrow> length (evidence n) = 1
           | Some evs \<Rightarrow> length (evidence n) = length evs))"
proof
  from store_in_db_rows[of extracted_nodes d format_fact enabled user_id]
  obtain rows where rows: "memory_nodes (snd (store_in_db format_fact enabled extracted_nodes user_id d))
              = memory_nodes d @ rows"
    "\<forall>r \<in> set rows. \<exists>n \<in> set (concat (map snd extracted_nodes)). row_of n r"
    unfolding rows_from_def by blast
  have p: "\<forall>r \<in> set rows. \<exists>item \<in> set extracted_nodes. \<exists>n \<in> set (snd item).
                  row_evidence r = evidence n \<and> 3 / 4 \<le> confidence n"
  proof
    fix r assume "r \<in> set rows"
    then obtain n where n: "n \<in> set (concat (map snd extracted_nodes))" "row_of n r"
      using rows(2) by blast
    then obtain item where "item \<in> set extracted_nodes" "n \<in> set (snd item)" by auto
    then show "\<exists>item \<in> set extracted_nodes. \<exists>n \<in> set (snd item).
                  row_evidence r = evidence n \<and> 3 / 4 \<le> confidence n"
      using n(2) unfolding row_of_def by blast
  qed
  have q: "(\<forall>item \<in> set extracted_nodes. \<forall>n \<in> set (snd item). evidence n \<noteq> [])
                \<longrightarrow> (\<forall>r \<in> set rows. row_evidence r \<noteq> [])"
    using p by metis
  show "\<exists>rows. memory_nodes (snd (store_in_db format_fact enabled extracted_nodes user_id d))
              = memory_nodes d @ rows
           \<and> (\<forall>r \<in> set rows. \<exists>item \<in> set extracted_nodes. \<exists>n \<in> set (snd item).
                  row_evidence r = evidence n \<and> 3 / 4 \<le> confidence n)
           \<and> ((\<forall>item \<in> set extracted_nodes. \<forall>n \<in> set (snd item). evidence n \<noteq> [])
                \<longrightarrow> (\<forall>r \<in> set rows. row_evidence r \<noteq> []))"
    using rows(1) p q by blast
next
  show "\<forall>n. convert_fact fct = Some n \<longrightarrow>
          (case lf_evidence fct of
             None \<Rightarrow> length (evidence n) = 1
           | Some evs \<Rightarrow> length (evidence n) = length evs)"
    by (auto simp: convert_fact_def convert_evidence_def split: option.splits)
qed

theorem persisted_rows_carry_candidate_evidence_witness:
  "memory_nodes (snd (store_in_db example_format True
       [(''Layer1'', [candidate ''phone_number'' ''9876543210'' (9 / 10)
                        [(''m1'', ''My phone number is 9876543210'')]])] ''u1'' example_store)) \<noteq> []
   \<and> list_all (\<lambda>r. row_evidence r \<noteq> [])
       (memory_nodes (snd (store_in_db example_format True
          [(''Layer1'', [candidate ''phone_number'' ''9876543210'' (9 / 10)
                           [(''m1'', ''My phone number is 9876543210'')]])] ''u1'' example_store)))
   \<and> (\<exists>n. convert_fact \<lparr>lf_type = Some ''phone_number'', lf_value = Some ''9876543210'',
                          lf_confidence = Some (9 / 10), lf_evidence = None\<rparr> = Some n
          \<and> length (evidence n) = 1)"
proof -
  let ?X = "[(''Layer1'', [candidate ''phone_number'' ''9876543210'' (9 / 10)
                            [(''m1'', ''My phone number is 9876543210'')]])]"
  let ?F = "\<lparr>lf_type = Some ''phone_number'', lf_value = Some ''9876543210'',
             lf_confidence = Some (9 / 10), lf_evidence = None\<rparr>"
  have h: "\<forall>item \<in> set ?X. \<forall>n \<in> set (snd item). evidence n \<noteq> []"
    by (simp add: candidate_def)
  obtain n where n: "convert_fact ?F = Some n" by (simp add: convert_fact_def)
  have m: "memory_nodes example_store = []" by (simp add: example_store_def)
  from persisted_rows_carry_candidate_evidence[of example_format True ?X "''u1''" example_store ?F]
  obtain rows where rows:
    "memory_nodes (snd (store_in_db example_format True ?X ''u1'' example_store))
       = memory_nodes example_store @ rows"
    "\<forall>r \<in> set rows. row_evidence r \<noteq> []"
    and l: "length (evidence n) = 1"
    using h n by auto
  have ne: "memory_nodes (snd (store_in_db example_format True ?X ''u1'' example_store)) \<noteq> []"
    by (simp add: store_in_db_def layer_numbers store_node_def store_memory_node_def
          is_connected_def request_def example_store_def candidate_def Let_def
          get_user_summary_def)
  have "list_all (\<lambda>r. row_evidence r \<noteq> [])
          (memory_nodes (snd (store_in_db example_format True ?X ''u1'' example_store)))"
    using rows m by (simp add: list_all_iff)
  then show ?thesis using ne n l by blast
qed

text \<open>
  Claim C5 as stated fails in what is returned: with the marker present and no force flag
  \<^verbatim>\<open>process_json\<close> returns the dictionary \<^verbatim>\<open>{"message": "Already processed", "skipped": True}\<close>,
  which its callers test with \<^verbatim>\<open>get("skipped")\<close>, not an empty result.
\<close>

theorem skipped_run_result_not_empty_counterexample:
  "fst (process_json fuzz_ratio example_format example_model example_extractor example_input ''u1''
          False \<lparr>db = example_store\<lparr>processed_files := [(''u1'', 1)]\<rparr>, llm_calls = 0\<rparr>)
     = Inr [(''message'', Str ''Already processed''), (''skipped'', Bool True)]
   \<and> fst (process_json fuzz_ratio example_format example_model example_extractor example_input ''u1''
          False \<lparr>db = example_store\<lparr>processed_files := [(''u1'', 1)]\<rparr>, llm_calls = 0\<rparr>)
     \<noteq> Inr []"
proof -
  let ?w = "\<lparr>db = example_store\<lparr>processed_files := [(''u1'', 1)]\<rparr>, llm_calls = 0\<rparr>"
  have "process_json fuzz_ratio example_format example_model example_extractor example_input ''u1''
          False ?w = (Inr skipped_notice, ?w\<lparr>db := snd (request (db ?w))\<rparr>)"
    by (rule process_json_skip)
       (simp_all add: example_extractor_def example_store_def request_def dict_contains_def)
  then show ?thesis by (simp add: skipped_notice_def)
qed

text \<open>
  Claim C5, amended. If no force-override is requested and the marker is found (the
  extractor's store is enabled, the client is connected, the marker query succeeds and the
  user has a row in \<^verbatim>\<open>processed_files\<close>), \<^verbatim>\<open>process_json\<close> performs no extraction work (no
  call to the model, no row written, the markers unchanged) and returns the notice
  \<^verbatim>\<open>{"message": "Already processed", "skipped": True}\<close>, which holds no fact. Consequently, on
  a connected store whose requests do not fail, after a run that returned a non-empty
  result a second run on the same input without force returns that notice and changes
  nothing.
\<close>

theorem process_json_skips_when_marked:
  "(\<not> force_reprocess \<and> db_enabled ext \<and> client (db w) \<and> fst (request (db w))
      \<and> dict_contains user_id (processed_files (db w)) \<longrightarrow>
      process_json ratio format_fact model ext input_json user_id force_reprocess w
        = (Inr [(''message'', Str ''Already processed''), (''skipped'', Bool True)],
           w\<lparr>db := snd (request (db w))\<rparr>)
      \<and> llm_calls (snd (process_json ratio format_fact model ext input_json user_id force_reprocess w))
          = llm_calls w
      \<and> memory_nodes (db (snd (process_json ratio format_fact model ext input_json user_id
                                   force_reprocess w)))
          = memory_nodes (db w)
      \<and> processed_files (db (snd (process_json ratio format_fact model ext input_json user_id
                                   force_reprocess w)))
          = processed_files (db w))
   \<and> (db_enabled ext \<and> client (db w) \<and> faults (db w) = []
        \<and> process_json ratio format_fact model ext input_json user_id first_force w = (Inr result, w1)
        \<and> result \<noteq> [] \<longrightarrow>
      process_json ratio format_fact model ext input_json user_id False w1
        = (Inr [(''message'', Str ''Already processed''), (''skipped'', Bool True)], w1))"
proof (intro conjI impI)
  assume a: "\<not> force_reprocess \<and> db_enabled ext \<and> client (db w) \<and> fst (request (db w))
      \<and> dict_contains user_id (processed_files (db w))"
  then have s: "process_json ratio format_fact model ext input_json user_id force_reprocess w
           = (Inr skipped_notice, w\<lparr>db := snd (request (db w))\<rparr>)"
    by (intro process_json_skip) simp_all
  show "process_json ratio format_fact model ext input_json user_id force_reprocess w
        = (Inr [(''message'', Str ''Already processed''), (''skipped'', Bool True)],
           w\<lparr>db := snd (request (db w))\<rparr>)"
    using s by (simp add: skipped_notice_def)
  show "llm_calls (snd (process_json ratio format_fact model ext input_json user_id force_reprocess w))
          = llm_calls w"
    using s by simp
  show "memory_nodes (db (snd (process_json ratio format_fact model ext input_json user_id
                                   force_reprocess w)))
          = memory_nodes (db w)"
    using s by (simp add: request_preserves)
  show "processed_files (db (snd (process_json ratio format_fact model ext input_json user_id
                                   force_reprocess w)))
          = processed_files (db w)"
    using s by (simp add: request_preserves)
next
  assume b: "db_enabled ext \<and> client (db w) \<and> faults (db w) = []
        \<and> process_json ratio format_fact model ext input_json user_id first_force w = (Inr result, w1)
        \<and> result \<noteq> []"
  then have ff: "fault_free (db w)" by (simp add: fault_free_def)
  from process_json_marks[OF ff _ _ _, of ext ratio format_fact model input_json user_id first_force
         result w1] b
  have m: "fault_free (db w1)" "dict_contains user_id (processed_files (db w1))" by simp_all
  have rq: "request (db w1) = (True, db w1)" using m(1) by (rule request_fault_free)
  have "process_json ratio format_fact model ext input_json user_id False w1
           = (Inr skipped_notice, w1\<lparr>db := snd (request (db w1))\<rparr>)"
    using b m rq by (intro process_json_skip) (simp_all add: fault_free_def)
  then show "process_json ratio format_fact model ext input_json user_id False w1
        = (Inr [(''message'', Str ''Already processed''), (''skipped'', Bool True)], w1)"
    using rq by (simp add: skipped_notice_def)
qed

theorem process_json_skips_when_marked_witness:
  "process_json fuzz_ratio example_format example_model example_extractor example_input ''u1'' False
     \<lparr>db = example_store\<lparr>processed_files := [(''u1'', 1)]\<rparr>, llm_calls = 0\<rparr>
     = (Inr [(''message'', Str ''Already processed''), (''skipped'', Bool True)],
        \<lparr>db = example_store\<lparr>processed_files := [(''u1'', 1)]\<rparr>, llm_calls = 0\<rparr>)
   \<and> fst (process_json fuzz_ratio example_format example_model example_extractor example_input ''u1''
            False \<lparr>db = example_store, llm_calls = 0\<rparr>)
       = Inr [(''Layer1'', Nodes [candidate ''phone_number'' ''9876543210'' (9 / 10) []])]
   \<and> process_json fuzz_ratio example_format example_model example_extractor example_input ''u1'' False
       (snd (process_json fuzz_ratio example_format example_model example_extractor example_input
               ''u1'' False \<lparr>db = example_store, llm_calls = 0\<rparr>))
     = (Inr [(''message'', Str ''Already processed''), (''skipped'', Bool True)],
        snd (process_json fuzz_ratio example_format example_model example_extractor example_input
               ''u1'' False \<lparr>db = example_store, llm_calls = 0\<rparr>))"
proof -
  let ?w = "\<lparr>db = example_store\<lparr>processed_files := [(''u1'', 1)]\<rparr>, llm_calls = 0\<rparr>"
  let ?start = "\<lparr>db = example_store, llm_calls = 0\<rparr>"
  let ?run = "process_json fuzz_ratio example_format example_model example_extractor example_input
                ''u1'' False ?start"
  have h1: "\<not> False \<and> db_enabled example_extractor \<and> client (db ?w) \<and> fst (request (db ?w))
              \<and> dict_contains ''u1'' (processed_files (db ?w))"
    by (simp add: example_extractor_def example_store_def request_def dict_contains_def)
  have rq: "snd (request (db ?w)) = db ?w"
    by (simp add: example_store_def request_def)
  have a: "process_json fuzz_ratio example_format example_model example_extractor example_input
             ''u1'' False ?w
           = (Inr [(''message'', Str ''Already processed''), (''skipped'', Bool True)], ?w)"
    using process_json_skips_when_marked[of False example_extractor ?w "''u1''" fuzz_ratio
            example_format example_model example_input] h1 rq
    by simp
  have r: "fst ?run = Inr [(''Layer1'', Nodes [candidate ''phone_number'' ''9876543210'' (9 / 10) []])]"
    by (simp add: example_run)
  have h2: "db_enabled example_extractor \<and> client (db ?start) \<and> faults (db ?start) = []
        \<and> ?run = (Inr [(''Layer1'', Nodes [candidate ''phone_number'' ''9876543210'' (9 / 10) []])],
                   snd ?run)
        \<and> [(''Layer1'', Nodes [candidate ''phone_number'' ''9876543210'' (9 / 10) []])] \<noteq> []"
    using r by (simp add: example_extractor_def example_store_def prod_eq_iff)
  have b: "process_json fuzz_ratio example_format example_model example_extractor example_input
             ''u1'' False (snd ?run)
           = (Inr [(''message'', Str ''Already processed''), (''skipped'', Bool True)], snd ?run)"
    using process_json_skips_when_marked[of _ example_extractor ?start "''u1''" fuzz_ratio
            example_format example_model example_input False
            "[(''Layer1'', Nodes [candidate ''phone_number'' ''9876543210'' (9 / 10) []])]"
            "snd ?run"] h2
    by blast
  show ?thesis using a r b by blast
qed

subsection \<open>What a run of store_in_db writes and reports\<close>

lemma store_layers_raises:
  "\<exists>item \<in> set X. layer_number (fst item) = None \<Longrightarrow>
   fst (store_layers format_fact u X st) = Some ValueError"
proof (induction X arbitrary: st)
  case Nil
  then show ?case by simp
next
  case (Cons item X)
  obtain layer nodes where item: "item = (layer, nodes)" by (cases item)
  obtain s dup r newly d where st: "st = (s, dup, r, newly, d)" by (cases st)
  show ?case
  proof (cases "layer_number layer")
    case None
    then show ?thesis using item by simp
  next
    case (Some no)
    then have "\<exists>item \<in> set X. layer_number (fst item) = None" using Cons.prems item by auto
    from Cons.IH[OF this] show ?thesis using item st Some by simp
  qed
qed

lemma store_memory_node_row:
  "store_memory_node d u no t c cf k ev ''initial'' None = (r, d') \<Longrightarrow>
   (r = None \<and> memory_nodes d' = memory_nodes d)
   \<or> (r = Some (show_nat (length (memory_nodes d)))
      \<and> memory_nodes d' = memory_nodes d
           @ [\<lparr>row_user_id = u, row_layer = no, row_fact_type = t, row_content = c,
               row_concluded_fact = cf, row_confidence = k, row_status = ''pending'',
               row_evidence = ev, row_extraction_method = ''initial'',
               row_parent_update_id = None\<rparr>])"
proof (cases "client d")
  case False
  assume "store_memory_node d u no t c cf k ev ''initial'' None = (r, d')"
  then show ?thesis using False by (simp add: store_memory_node_def is_connected_def)
next
  case True
  assume a: "store_memory_node d u no t c cf k ev ''initial'' None = (r, d')"
  show ?thesis
  proof (cases "faults d")
    case Nil
    then show ?thesis using a True
      by (auto simp add: store_memory_node_def is_connected_def request_def
            simp del: show_nat.simps)
  next
    case (Cons b bs)
    then show ?thesis using a True
      by (cases b) (auto simp add: store_memory_node_def is_connected_def request_def
            simp del: show_nat.simps)
  qed
qed

lemma store_node_step:
  assumes "store_node format_fact u layer no (s, dup, r, acc @ [(layer, pre)], d) n
             = (s', dup', r', newly', d')"
    and "layer \<notin> fst ` set acc"
  shows "\<exists>ks. (ks = [] \<or> (ks = [n] \<and> 3 / 4 \<le> confidence n))
           \<and> newly' = acc @ [(layer, pre @ ks)]
           \<and> memory_nodes d' = memory_nodes d @ map (node_row format_fact u no) ks
           \<and> s' = s + length ks
           \<and> r' = r + length (filter (\<lambda>n. confidence n < 3 / 4) [n])
           \<and> s' + dup' = s + dup + length (filter (\<lambda>n. 3 / 4 \<le> confidence n) [n])"
proof (cases "confidence n < 3 / 4")
  case True
  then show ?thesis using assms(1) by (simp add: store_node_def)
next
  case False
  obtain res d1 where m: "store_memory_node d u no (dtype (detail n)) (dvalue (detail n))
        (format_fact u (dtype (detail n)) (dvalue (detail n))) (confidence n) (evidence n)
        ''initial'' None = (res, d1)"
    by (cases "store_memory_node d u no (dtype (detail n)) (dvalue (detail n))
        (format_fact u (dtype (detail n)) (dvalue (detail n))) (confidence n) (evidence n)
        ''initial'' None")
  from store_memory_node_row[OF m]
  show ?thesis
  proof
    assume a: "res = None \<and> memory_nodes d1 = memory_nodes d"
    then have "(s', dup', r', newly', d') = (s, Suc dup, r, acc @ [(layer, pre)], d1)"
      using assms(1) False m by (simp add: store_node_def)
    then show ?thesis using a False by simp
  next
    assume a: "res = Some (show_nat (length (memory_nodes d)))
      \<and> memory_nodes d1 = memory_nodes d
           @ [\<lparr>row_user_id = u, row_layer = no, row_fact_type = dtype (detail n),
               row_content = dvalue (detail n),
               row_concluded_fact = format_fact u (dtype (detail n)) (dvalue (detail n)),
               row_confidence = confidence n, row_status = ''pending'',
               row_evidence = evidence n, row_extraction_method = ''initial'',
               row_parent_update_id = None\<rparr>]"
    have da: "dict_append layer n (acc @ [(layer, pre)]) = acc @ [(layer, pre @ [n])]"
      using assms(2) by (simp add: dict_append_def dict_get_last dict_set_last)
    have "(s', dup', r', newly', d') = (Suc s, dup, r, acc @ [(layer, pre @ [n])], d1)"
      using assms(1) False m a show_nat_nonempty da by (simp add: store_node_def)
    then show ?thesis using a False by (simp add: node_row_def)
  qed
qed

lemma nths_Cons_extend:
  "(if b then [n] else []) @ nths nodes I
     = nths (n # nodes) ((if b then {0} else {}) \<union> Suc ` I)"
proof -
  have "{j. Suc j \<in> (if b then {0} else {}) \<union> Suc ` I} = I" by auto
  then show ?thesis by (simp add: nths_Cons)
qed


lemma foldl_store_node_steps:
  "foldl (store_node format_fact u layer no) (s, dup, r, acc @ [(layer, pre)], d) nodes
     = (s', dup', r', newly', d') \<Longrightarrow>
   layer \<notin> fst ` set acc \<Longrightarrow>
   \<exists>ks. (\<exists>I. ks = nths nodes I) \<and> (\<forall>n \<in> set ks. 3 / 4 \<le> confidence n)
      \<and> newly' = acc @ [(layer, pre @ ks)]
      \<and> memory_nodes d' = memory_nodes d @ map (node_row format_fact u no) ks
      \<and> s' = s + length ks
      \<and> r' = r + length (filter (\<lambda>n. confidence n < 3 / 4) nodes)
      \<and> s' + dup' = s + dup + length (filter (\<lambda>n. 3 / 4 \<le> confidence n) nodes)"
proof (induction nodes arbitrary: s dup r pre d)
  case Nil
  then show ?case by simp
next
  case (Cons n nodes)
  obtain s1 dup1 r1 newly1 d1 where
    st: "store_node format_fact u layer no (s, dup, r, acc @ [(layer, pre)], d) n
           = (s1, dup1, r1, newly1, d1)"
    by (cases "store_node format_fact u layer no (s, dup, r, acc @ [(layer, pre)], d) n")
  from store_node_step[OF st Cons.prems(2)]
  obtain k0 where k0: "k0 = [] \<or> (k0 = [n] \<and> 3 / 4 \<le> confidence n)"
    and k0n: "newly1 = acc @ [(layer, pre @ k0)]"
    and k0m: "memory_nodes d1 = memory_nodes d @ map (node_row format_fact u no) k0"
    and k0s: "s1 = s + length k0"
    and k0r: "r1 = r + length (filter (\<lambda>n. confidence n < 3 / 4) [n])"
    and k0d: "s1 + dup1 = s + dup + length (filter (\<lambda>n. 3 / 4 \<le> confidence n) [n])"
    by blast
  have f: "foldl (store_node format_fact u layer no) (s1, dup1, r1, acc @ [(layer, pre @ k0)], d1) nodes
             = (s', dup', r', newly', d')"
    using Cons.prems(1) st k0n by simp
  from Cons.IH[OF f Cons.prems(2)]
  obtain ks where ksI: "\<exists>I. ks = nths nodes I"
    and ksc: "\<forall>n \<in> set ks. 3 / 4 \<le> confidence n"
    and ksn: "newly' = acc @ [(layer, (pre @ k0) @ ks)]"
    and ksm: "memory_nodes d' = memory_nodes d1 @ map (node_row format_fact u no) ks"
    and kss: "s' = s1 + length ks"
    and ksr: "r' = r1 + length (filter (\<lambda>n. confidence n < 3 / 4) nodes)"
    and ksd: "s' + dup' = s1 + dup1 + length (filter (\<lambda>n. 3 / 4 \<le> confidence n) nodes)"
    by blast
  from ksI obtain I where I: "ks = nths nodes I" ..
  have k0': "k0 = (if k0 \<noteq> [] then [n] else [])" using k0 by auto
  have "k0 @ ks = nths (n # nodes) ((if k0 \<noteq> [] then {0} else {}) \<union> Suc ` I)"
    using nths_Cons_extend[of "k0 \<noteq> []" n nodes I] k0' I by simp
  then have sub: "\<exists>J. k0 @ ks = nths (n # nodes) J" ..
  have c: "\<forall>m \<in> set (k0 @ ks). 3 / 4 \<le> confidence m" using k0 ksc by auto
  have e1: "newly' = acc @ [(layer, pre @ (k0 @ ks))]" using ksn by simp
  have e2: "memory_nodes d' = memory_nodes d @ map (node_row format_fact u no) (k0 @ ks)"
    using ksm k0m by simp
  have e3: "s' = s + length (k0 @ ks)" using kss k0s by simp
  have e4: "r' = r + length (filter (\<lambda>n. confidence n < 3 / 4) (n # nodes))"
    using ksr k0r by simp
  have e5: "s' + dup' = s + dup + length (filter (\<lambda>n. 3 / 4 \<le> confidence n) (n # nodes))"
    using ksd k0d by simp
  show ?case
    using sub c e1 e2 e3 e4 e5 by - (rule exI[of _ "k0 @ ks"], (rule conjI | assumption)+)
qed


lemma store_layers_steps:
  "store_layers format_fact u X (s, dup, r, acc, d) = (e, (s', dup', r', newly', d')) \<Longrightarrow>
   distinct (map fst X) \<Longrightarrow> fst ` set acc \<inter> fst ` set X = {} \<Longrightarrow>
   \<forall>item \<in> set X. layer_number (fst item) \<noteq> None \<Longrightarrow>
   e = None
   \<and> (\<exists>Y. newly' = acc @ Y \<and> map fst Y = map fst X
          \<and> list_all2 (\<lambda>y x. (\<exists>I. snd y = nths (snd x) I)
                                \<and> (\<forall>n \<in> set (snd y). 3 / 4 \<le> confidence n)) Y X
          \<and> memory_nodes d' = memory_nodes d @ written_rows format_fact u Y
          \<and> s' = s + length (all_nodes Y)
          \<and> r' = r + length (filter (\<lambda>n. confidence n < 3 / 4) (all_nodes X))
          \<and> s' + dup' = s + dup + length (filter (\<lambda>n. 3 / 4 \<le> confidence n) (all_nodes X)))"
proof (induction X arbitrary: s dup r acc d)
  case Nil
  then show ?case by (simp add: written_rows_def all_nodes_def)
next
  case (Cons item X)
  obtain layer nodes where item: "item = (layer, nodes)" by (cases item)
  obtain no where no: "layer_number layer = Some no" using Cons.prems(4) item by auto
  have la: "layer \<notin> fst ` set acc" using Cons.prems(3) item by auto
  obtain s1 dup1 r1 newly1 d1 where
    f: "foldl (store_node format_fact u layer no) (s, dup, r, acc @ [(layer, [])], d) nodes
          = (s1, dup1, r1, newly1, d1)"
    by (cases "foldl (store_node format_fact u layer no) (s, dup, r, acc @ [(layer, [])], d) nodes")
  from foldl_store_node_steps[OF f la, unfolded append_Nil]
  obtain ks where ksI: "\<exists>I. ks = nths nodes I"
    and ksc: "\<forall>n \<in> set ks. 3 / 4 \<le> confidence n"
    and ksn: "newly1 = acc @ [(layer, ks)]"
    and ksm: "memory_nodes d1 = memory_nodes d @ map (node_row format_fact u no) ks"
    and kss: "s1 = s + length ks"
    and ksr: "r1 = r + length (filter (\<lambda>n. confidence n < 3 / 4) nodes)"
    and ksd: "s1 + dup1 = s + dup + length (filter (\<lambda>n. 3 / 4 \<le> confidence n) nodes)"
    by blast
  have sl: "store_layers format_fact u X (s1, dup1, r1, acc @ [(layer, ks)], d1)
              = (e, (s', dup', r', newly', d'))"
    using Cons.prems(1) item no f ksn by (simp add: dict_set_new[OF la])
  have dX: "distinct (map fst X)" using Cons.prems(2) by simp
  have iX: "fst ` set (acc @ [(layer, ks)]) \<inter> fst ` set X = {}"
    using Cons.prems(2,3) item by auto
  have kX: "\<forall>item \<in> set X. layer_number (fst item) \<noteq> None" using Cons.prems(4) by simp
  from Cons.IH[OF sl dX iX kX]
  obtain Y where e: "e = None"
    and Yn: "newly' = (acc @ [(layer, ks)]) @ Y"
    and Yk: "map fst Y = map fst X"
    and Yl: "list_all2 (\<lambda>y x. (\<exists>I. snd y = nths (snd x) I)
                                \<and> (\<forall>n \<in> set (snd y). 3 / 4 \<le> confidence n)) Y X"
    and Ym: "memory_nodes d' = memory_nodes d1 @ written_rows format_fact u Y"
    and Ys: "s' = s1 + length (all_nodes Y)"
    and Yr: "r' = r1 + length (filter (\<lambda>n. confidence n < 3 / 4) (all_nodes X))"
    and Yd: "s' + dup' = s1 + dup1 + length (filter (\<lambda>n. 3 / 4 \<le> confidence n) (all_nodes X))"
    by blast
  let ?Y = "(layer, ks) # Y"
  have g1: "newly' = acc @ ?Y" using Yn by simp
  have g2: "map fst ?Y = map fst (item # X)" using Yk item by simp
  have g3: "list_all2 (\<lambda>y x. (\<exists>I. snd y = nths (snd x) I)
                                \<and> (\<forall>n \<in> set (snd y). 3 / 4 \<le> confidence n)) ?Y (item # X)"
    using Yl ksI ksc item by simp
  have g4: "memory_nodes d' = memory_nodes d @ written_rows format_fact u ?Y"
    using Ym ksm no by (simp add: written_rows_def layer_rows_def)
  have g5: "s' = s + length (all_nodes ?Y)" using Ys kss by (simp add: all_nodes_def)
  have g6: "r' = r + length (filter (\<lambda>n. confidence n < 3 / 4) (all_nodes (item # X)))"
    using Yr ksr item by (simp add: all_nodes_def)
  have g7: "s' + dup' = s + dup
              + length (filter (\<lambda>n. 3 / 4 \<le> confidence n) (all_nodes (item # X)))"
    using Yd ksd item by (simp add: all_nodes_def)
  show ?case
    using e g1 g2 g3 g4 g5 g6 g7
    by - (rule conjI, assumption, rule exI[of _ ?Y], (rule conjI | assumption)+)
qed

lemma written_rows_filter_empty:
  "written_rows format_fact u (filter_empty_layers Y) = written_rows format_fact u Y"
  by (induction Y) (auto simp: written_rows_def filter_empty_layers_def layer_rows_def
        split: option.splits)

lemma all_nodes_filter_empty: "all_nodes (filter_empty_layers Y) = all_nodes Y"
  by (induction Y) (auto simp: all_nodes_def filter_empty_layers_def)

lemma stored_layers_from_input:
  "list_all2 (\<lambda>y x. (\<exists>I. snd y = nths (snd x) I)
                       \<and> (\<forall>n \<in> set (snd y). 3 / 4 \<le> confidence n)) Y X \<Longrightarrow>
   map fst Y = map fst X \<Longrightarrow> item \<in> set Y \<Longrightarrow>
   (\<forall>n \<in> set (snd item). 3 / 4 \<le> confidence n)
   \<and> (\<exists>ms I. (fst item, ms) \<in> set X \<and> snd item = nths ms I)"
proof (induction Y X rule: list_all2_induct)
  case Nil
  then show ?case by simp
next
  case (Cons y ys x xs)
  show ?case
  proof (cases "item = y")
    case True
    have "(fst y, snd x) \<in> set (x # xs)" using Cons.prems(1) by (cases x) auto
    then show ?thesis using True Cons.hyps(1) by blast
  next
    case False
    then have "item \<in> set ys" using Cons.prems(2) by simp
    from Cons.IH[OF _ this] Cons.prems(1) show ?thesis by auto
  qed
qed


lemma store_in_db_completes:
  assumes "distinct (map fst X)" and "\<forall>item \<in> set X. layer_number (fst item) \<noteq> None"
  shows "\<exists>Y dup. store_in_db format_fact True X u d
            = (\<lparr>newly_stored_nodes = filter_empty_layers Y,
                stats = \<lparr>stored = length (all_nodes Y), duplicate = dup,
                         low_confidence_rejected
                           = length (filter (\<lambda>n. confidence n < 3 / 4) (all_nodes X))\<rparr>\<rparr>,
               snd (store_in_db format_fact True X u d))
          \<and> memory_nodes (snd (store_in_db format_fact True X u d))
              = memory_nodes d @ written_rows format_fact u Y
          \<and> length (all_nodes Y) + dup
              = length (filter (\<lambda>n. 3 / 4 \<le> confidence n) (all_nodes X))
          \<and> map fst Y = map fst X
          \<and> list_all2 (\<lambda>y x. (\<exists>I. snd y = nths (snd x) I)
                                \<and> (\<forall>n \<in> set (snd y). 3 / 4 \<le> confidence n)) Y X"
proof -
  obtain e s' dup' r' newly' d' where
    sl: "store_layers format_fact u X (0, 0, 0, [], d) = (e, (s', dup', r', newly', d'))"
    by (cases "store_layers format_fact u X (0, 0, 0, [], d)") auto
  have i: "fst ` set [] \<inter> fst ` set X = {}" by simp
  from store_layers_steps[OF sl assms(1) i assms(2)]
  obtain Y where e: "e = None"
    and Yn: "newly' = Y"
    and Yk: "map fst Y = map fst X"
    and Yl: "list_all2 (\<lambda>y x. (\<exists>I. snd y = nths (snd x) I)
                                \<and> (\<forall>n \<in> set (snd y). 3 / 4 \<le> confidence n)) Y X"
    and Ym: "memory_nodes d' = memory_nodes d @ written_rows format_fact u Y"
    and Ys: "s' = length (all_nodes Y)"
    and Yr: "r' = length (filter (\<lambda>n. confidence n < 3 / 4) (all_nodes X))"
    and Yd: "s' + dup' = length (filter (\<lambda>n. 3 / 4 \<le> confidence n) (all_nodes X))"
    by auto
  have res: "store_in_db format_fact True X u d
       = (\<lparr>newly_stored_nodes = filter_empty_layers Y,
           stats = \<lparr>stored = length (all_nodes Y), duplicate = dup',
                    low_confidence_rejected
                      = length (filter (\<lambda>n. confidence n < 3 / 4) (all_nodes X))\<rparr>\<rparr>,
          snd (get_user_summary d' u))"
    using sl e Yn Ys Yr by (cases "get_user_summary d' u") (simp add: store_in_db_def)
  have g1: "store_in_db format_fact True X u d
       = (\<lparr>newly_stored_nodes = filter_empty_layers Y,
           stats = \<lparr>stored = length (all_nodes Y), duplicate = dup',
                    low_confidence_rejected
                      = length (filter (\<lambda>n. confidence n < 3 / 4) (all_nodes X))\<rparr>\<rparr>,
          snd (store_in_db format_fact True X u d))"
    using res by simp
  have g2: "memory_nodes (snd (store_in_db format_fact True X u d))
              = memory_nodes d @ written_rows format_fact u Y"
    using res Ym by (simp add: get_user_summary_memory_nodes)
  have g3: "length (all_nodes Y) + dup'
              = length (filter (\<lambda>n. 3 / 4 \<le> confidence n) (all_nodes X))"
    using Ys Yd by simp
  show ?thesis
    using g1 g2 g3 Yk Yl
    by - (rule exI[of _ Y], rule exI[of _ dup'], (rule conjI | assumption)+)
qed


lemma length_filter_confidence:
  "length (filter (\<lambda>n. 3 / 4 \<le> confidence n) ns) + length (filter (\<lambda>n. confidence n < 3 / 4) ns)
     = length ns"
  by (induction ns) auto

text \<open>
  Claim C10 as stated fails for its second trigger. An exception of the database during an
  insert never reaches \<^verbatim>\<open>store_in_db\<close>: \<^verbatim>\<open>store_memory_node\<close> catches it and returns \<^verbatim>\<open>None\<close>
  (lines 99--101 of the client), and \<^verbatim>\<open>store_in_db\<close> takes the branch that prints
  \<^verbatim>\<open>Failed to store\<close>. On a connected store whose first request fails, the one candidate of
  the input is counted under \<^verbatim>\<open>duplicate\<close> and \<^verbatim>\<open>newly_stored_nodes\<close> is empty: the candidate
  is not returned.
\<close>

theorem failed_insert_not_returned_counterexample:
  "store_in_db example_format True
     [(''Layer1'', [candidate ''name'' ''Bob'' (9 / 10) [(''m1'', ''I am Bob'')]])] ''u1''
     (example_store\<lparr>faults := [True]\<rparr>)
   = (\<lparr>newly_stored_nodes = [],
       stats = \<lparr>stored = 0, duplicate = 1, low_confidence_rejected = 0\<rparr>\<rparr>,
      example_store)"
  by (simp add: store_in_db_def layer_numbers store_node_def store_memory_node_def
        is_connected_def request_def example_store_def candidate_def Let_def
        get_user_summary_def filter_empty_layers_def)

text \<open>
  Claim C10, amended. (1) When the store is disabled, \<^verbatim>\<open>store_in_db\<close> returns as
  \<^verbatim>\<open>newly_stored_nodes\<close> every input candidate of every non-empty layer, with all counts equal
  to 0, and leaves the store as it is. (2) When the \<^verbatim>\<open>try\<close> block raises, which happens when
  a layer key is not \<^verbatim>\<open>Layer\<close> followed by an integer, it returns the same. (3) When the
  \<^verbatim>\<open>try\<close> block completes (distinct layer keys, each with a number), the result is exact:
  the rows appended to the store are the rows of the returned candidates, \<^verbatim>\<open>stored\<close> is their
  number, \<^verbatim>\<open>stored + duplicate\<close> is the number of candidates with confidence at least 0.75,
  \<^verbatim>\<open>low_confidence_rejected\<close> the number of the others, every returned layer is non-empty and
  is a subsequence of the input layer of the same key, and a run in which an insert failed
  or a candidate was rejected does not return the fallback result of (1) and (2).
  (4) A run on a connected store without failing requests, on candidates of confidence at
  least 0.75, writes one row for every candidate, reports their number as \<^verbatim>\<open>stored\<close>, and
  returns the same \<^verbatim>\<open>newly_stored_nodes\<close> as the fallback, so the caller, who is given only
  \<^verbatim>\<open>newly_stored_nodes\<close> by \<^verbatim>\<open>process_json\<close>, cannot tell the two apart.
\<close>

theorem store_in_db_fallback_and_failed_inserts:
  "(\<not> enabled \<longrightarrow>
      store_in_db format_fact enabled extracted_nodes user_id d
        = (\<lparr>newly_stored_nodes = filter (\<lambda>item. snd item \<noteq> []) extracted_nodes,
            stats = \<lparr>stored = 0, duplicate = 0, low_confidence_rejected = 0\<rparr>\<rparr>, d))
   \<and> (enabled \<and> (\<exists>item \<in> set extracted_nodes. layer_number (fst item) = None) \<longrightarrow>
      fst (store_in_db format_fact enabled extracted_nodes user_id d)
        = \<lparr>newly_stored_nodes = filter (\<lambda>item. snd item \<noteq> []) extracted_nodes,
           stats = \<lparr>stored = 0, duplicate = 0, low_confidence_rejected = 0\<rparr>\<rparr>)
   \<and> (enabled \<and> distinct (map fst extracted_nodes)
        \<and> (\<forall>item \<in> set extracted_nodes. layer_number (fst item) \<noteq> None) \<longrightarrow>
      (let res = fst (store_in_db format_fact enabled extracted_nodes user_id d);
           d' = snd (store_in_db format_fact enabled extracted_nodes user_id d)
       in memory_nodes d' = memory_nodes d @ written_rows format_fact user_id (newly_stored_nodes res)
          \<and> stored (stats res) = length (all_nodes (newly_stored_nodes res))
          \<and> stored (stats res) + duplicate (stats res)
               = length (filter (\<lambda>n. 3 / 4 \<le> confidence n) (all_nodes extracted_nodes))
          \<and> low_confidence_rejected (stats res)
               = length (filter (\<lambda>n. confidence n < 3 / 4) (all_nodes extracted_nodes))
          \<and> (\<forall>item \<in> set (newly_stored_nodes res).
                 snd item \<noteq> [] \<and> (\<forall>n \<in> set (snd item). 3 / 4 \<le> confidence n)
                 \<and> (\<exists>ms I. (fst item, ms) \<in> set extracted_nodes \<and> snd item = nths ms I))
          \<and> (0 < duplicate (stats res) + low_confidence_rejected (stats res) \<longrightarrow>
                 newly_stored_nodes res \<noteq> filter (\<lambda>item. snd item \<noteq> []) extracted_nodes)))
   \<and> (enabled \<and> distinct (map fst extracted_nodes)
        \<and> (\<forall>item \<in> set extracted_nodes. layer_number (fst item) \<noteq> None
              \<and> (\<forall>n \<in> set (snd item). 3 / 4 \<le> confidence n))
        \<and> client d \<and> faults d = [] \<longrightarrow>
      (let res = fst (store_in_db format_fact enabled extracted_nodes user_id d);
           d' = snd (store_in_db format_fact enabled extracted_nodes user_id d)
       in newly_stored_nodes res = filter (\<lambda>item. snd item \<noteq> []) extracted_nodes
          \<and> stored (stats res) = length (all_nodes extracted_nodes)
          \<and> memory_nodes d' = memory_nodes d @ written_rows format_fact user_id extracted_nodes))"
proof (intro conjI impI)
  assume "\<not> enabled"
  then show "store_in_db format_fact enabled extracted_nodes user_id d
        = (\<lparr>newly_stored_nodes = filter (\<lambda>item. snd item \<noteq> []) extracted_nodes,
            stats = \<lparr>stored = 0, duplicate = 0, low_confidence_rejected = 0\<rparr>\<rparr>, d)"
    by (simp add: store_in_db_disabled all_nodes_result_def filter_empty_layers_def)
next
  assume a: "enabled \<and> (\<exists>item \<in> set extracted_nodes. layer_number (fst item) = None)"
  then have "fst (store_layers format_fact user_id extracted_nodes (0, 0, 0, [], d)) \<noteq> None"
    using store_layers_raises[of extracted_nodes format_fact user_id "(0, 0, 0, [], d)"] by simp
  from store_in_db_raised[OF this] a
  show "fst (store_in_db format_fact enabled extracted_nodes user_id d)
        = \<lparr>newly_stored_nodes = filter (\<lambda>item. snd item \<noteq> []) extracted_nodes,
           stats = \<lparr>stored = 0, duplicate = 0, low_confidence_rejected = 0\<rparr>\<rparr>"
    by (simp add: all_nodes_result_def filter_empty_layers_def)
next
  assume a: "enabled \<and> distinct (map fst extracted_nodes)
        \<and> (\<forall>item \<in> set extracted_nodes. layer_number (fst item) \<noteq> None)"
  then have en: "enabled = True" and di: "distinct (map fst extracted_nodes)"
    and ke: "\<forall>item \<in> set extracted_nodes. layer_number (fst item) \<noteq> None" by simp_all
  define res where "res = fst (store_in_db format_fact True extracted_nodes user_id d)"
  define d' where "d' = snd (store_in_db format_fact True extracted_nodes user_id d)"
  from store_in_db_completes[OF di ke, of format_fact user_id d]
  obtain Y dup where
    r: "store_in_db format_fact True extracted_nodes user_id d
          = (\<lparr>newly_stored_nodes = filter_empty_layers Y,
              stats = \<lparr>stored = length (all_nodes Y), duplicate = dup,
                       low_confidence_rejected
                         = length (filter (\<lambda>n. confidence n < 3 / 4) (all_nodes extracted_nodes))\<rparr>\<rparr>,
             d')"
    and m: "memory_nodes d' = memory_nodes d @ written_rows format_fact user_id Y"
    and c: "length (all_nodes Y) + dup
              = length (filter (\<lambda>n. 3 / 4 \<le> confidence n) (all_nodes extracted_nodes))"
    and k: "map fst Y = map fst extracted_nodes"
    and l: "list_all2 (\<lambda>y x. (\<exists>I. snd y = nths (snd x) I)
                                \<and> (\<forall>n \<in> set (snd y). 3 / 4 \<le> confidence n)) Y extracted_nodes"
    unfolding d'_def by blast
  have rn: "newly_stored_nodes res = filter_empty_layers Y"
    and rs: "stored (stats res) = length (all_nodes Y)"
    and rd: "duplicate (stats res) = dup"
    and rr: "low_confidence_rejected (stats res)
               = length (filter (\<lambda>n. confidence n < 3 / 4) (all_nodes extracted_nodes))"
    using r by (simp_all add: res_def)
  have p1: "memory_nodes d' = memory_nodes d @ written_rows format_fact user_id (newly_stored_nodes res)"
    using m rn by (simp add: written_rows_filter_empty)
  have p2: "stored (stats res) = length (all_nodes (newly_stored_nodes res))"
    using rs rn by (simp add: all_nodes_filter_empty)
  have p3: "stored (stats res) + duplicate (stats res)
               = length (filter (\<lambda>n. 3 / 4 \<le> confidence n) (all_nodes extracted_nodes))"
    using rs rd c by simp
  have p5: "\<forall>item \<in> set (newly_stored_nodes res).
                 snd item \<noteq> [] \<and> (\<forall>n \<in> set (snd item). 3 / 4 \<le> confidence n)
                 \<and> (\<exists>ms I. (fst item, ms) \<in> set extracted_nodes \<and> snd item = nths ms I)"
  proof
    fix item assume "item \<in> set (newly_stored_nodes res)"
    then have ne: "snd item \<noteq> []" and iY: "item \<in> set Y"
      using rn by (simp_all add: filter_empty_layers_def)
    from stored_layers_from_input[OF l k iY] ne
    show "snd item \<noteq> [] \<and> (\<forall>n \<in> set (snd item). 3 / 4 \<le> confidence n)
                 \<and> (\<exists>ms I. (fst item, ms) \<in> set extracted_nodes \<and> snd item = nths ms I)"
      by simp
  qed
  have p6: "0 < duplicate (stats res) + low_confidence_rejected (stats res) \<longrightarrow>
                 newly_stored_nodes res \<noteq> filter (\<lambda>item. snd item \<noteq> []) extracted_nodes"
  proof (intro impI notI)
    assume pos: "0 < duplicate (stats res) + low_confidence_rejected (stats res)"
    assume "newly_stored_nodes res = filter (\<lambda>item. snd item \<noteq> []) extracted_nodes"
    then have "filter_empty_layers Y = filter_empty_layers extracted_nodes"
      using rn by (simp add: filter_empty_layers_def)
    then have "all_nodes Y = all_nodes extracted_nodes"
      using all_nodes_filter_empty[of Y] all_nodes_filter_empty[of extracted_nodes] by simp
    then have "stored (stats res) = length (all_nodes extracted_nodes)" using rs by simp
    then show False
      using pos p3 rr length_filter_confidence[of "all_nodes extracted_nodes"] by simp
  qed
  show "let res = fst (store_in_db format_fact enabled extracted_nodes user_id d);
           d' = snd (store_in_db format_fact enabled extracted_nodes user_id d)
       in memory_nodes d' = memory_nodes d @ written_rows format_fact user_id (newly_stored_nodes res)
          \<and> stored (stats res) = length (all_nodes (newly_stored_nodes res))
          \<and> stored (stats res) + duplicate (stats res)
               = length (filter (\<lambda>n. 3 / 4 \<le> confidence n) (all_nodes extracted_nodes))
          \<and> low_confidence_rejected (stats res)
               = length (filter (\<lambda>n. confidence n < 3 / 4) (all_nodes extracted_nodes))
          \<and> (\<forall>item \<in> set (newly_stored_nodes res).
                 snd item \<noteq> [] \<and> (\<forall>n \<in> set (snd item). 3 / 4 \<le> confidence n)
                 \<and> (\<exists>ms I. (fst item, ms) \<in> set extracted_nodes \<and> snd item = nths ms I))
          \<and> (0 < duplicate (stats res) + low_confidence_rejected (stats res) \<longrightarrow>
                 newly_stored_nodes res \<noteq> filter (\<lambda>item. snd item \<noteq> []) extracted_nodes)"
    unfolding Let_def en res_def[symmetric] d'_def[symmetric]
    using p1 p2 p3 rr p5 p6 by (intro conjI)
next
  assume a: "enabled \<and> distinct (map fst extracted_nodes)
        \<and> (\<forall>item \<in> set extracted_nodes. layer_number (fst item) \<noteq> None
              \<and> (\<forall>n \<in> set (snd item). 3 / 4 \<le> confidence n))
        \<and> client d \<and> faults d = []"
  then have en: "enabled = True" and di: "distinct (map fst extracted_nodes)"
    and ke: "\<forall>item \<in> set extracted_nodes. layer_number (fst item) \<noteq> None"
    and kc: "\<forall>item \<in> set extracted_nodes. layer_number (fst item) \<noteq> None
              \<and> (\<forall>n \<in> set (snd item). 3 / 4 \<le> confidence n)"
    and cl: "client d" and fa: "faults d = []" by simp_all
  define res where "res = fst (store_in_db format_fact True extracted_nodes user_id d)"
  define d' where "d' = snd (store_in_db format_fact True extracted_nodes user_id d)"
  have n: "newly_stored_nodes res = filter_empty_layers extracted_nodes"
    unfolding res_def by (rule store_in_db_all_written[OF di kc cl fa])
  from store_in_db_completes[OF di ke, of format_fact user_id d]
  obtain Y dup where
    r: "store_in_db format_fact True extracted_nodes user_id d
          = (\<lparr>newly_stored_nodes = filter_empty_layers Y,
              stats = \<lparr>stored = length (all_nodes Y), duplicate = dup,
                       low_confidence_rejected
                         = length (filter (\<lambda>n. confidence n < 3 / 4) (all_nodes extracted_nodes))\<rparr>\<rparr>,
             d')"
    and m: "memory_nodes d' = memory_nodes d @ written_rows format_fact user_id Y"
    unfolding d'_def by blast
  have rn: "newly_stored_nodes res = filter_empty_layers Y"
    and rs: "stored (stats res) = length (all_nodes Y)"
    using r by (simp_all add: res_def)
  have fe: "filter_empty_layers Y = filter_empty_layers extracted_nodes" using n rn by simp
  have q1: "newly_stored_nodes res = filter (\<lambda>item. snd item \<noteq> []) extracted_nodes"
    using n by (simp add: filter_empty_layers_def)
  have q2: "stored (stats res) = length (all_nodes extracted_nodes)"
    using rs fe all_nodes_filter_empty[of Y] all_nodes_filter_empty[of extracted_nodes] by simp
  have q3: "memory_nodes d' = memory_nodes d @ written_rows format_fact user_id extracted_nodes"
    using m fe written_rows_filter_empty[of format_fact user_id Y]
      written_rows_filter_empty[of format_fact user_id extracted_nodes] by simp
  show "let res = fst (store_in_db format_fact enabled extracted_nodes user_id d);
           d' = snd (store_in_db format_fact enabled extracted_nodes user_id d)
       in newly_stored_nodes res = filter (\<lambda>item. snd item \<noteq> []) extracted_nodes
          \<and> stored (stats res) = length (all_nodes extracted_nodes)
          \<and> memory_nodes d' = memory_nodes d @ written_rows format_fact user_id extracted_nodes"
    unfolding Let_def en res_def[symmetric] d'_def[symmetric]
    using q1 q2 q3 by (intro conjI)
qed

theorem store_in_db_fallback_and_failed_inserts_witness:
  "store_in_db example_format False
     [(''Layer1'', [candidate ''name'' ''Bob'' (9 / 10) [(''m1'', ''I am Bob'')],
                    candidate ''age'' ''3'' (1 / 10) [(''m2'', ''he is 3'')]]),
      (''Layer2'', [])] ''u1'' example_store
     = (\<lparr>newly_stored_nodes =
          [(''Layer1'', [candidate ''name'' ''Bob'' (9 / 10) [(''m1'', ''I am Bob'')],
                         candidate ''age'' ''3'' (1 / 10) [(''m2'', ''he is 3'')]])],
         stats = \<lparr>stored = 0, duplicate = 0, low_confidence_rejected = 0\<rparr>\<rparr>, example_store)
   \<and> layer_number ''notes'' = None
   \<and> fst (store_in_db example_format True
          [(''Layer1'', [candidate ''name'' ''Bob'' (9 / 10) [(''m1'', ''I am Bob'')]]),
           (''notes'', [])] ''u1'' example_store)
     = \<lparr>newly_stored_nodes = [(''Layer1'', [candidate ''name'' ''Bob'' (9 / 10) [(''m1'', ''I am Bob'')]])],
        stats = \<lparr>stored = 0, duplicate = 0, low_confidence_rejected = 0\<rparr>\<rparr>
   \<and> length (memory_nodes (snd (store_in_db example_format True
          [(''Layer1'', [candidate ''name'' ''Bob'' (9 / 10) [(''m1'', ''I am Bob'')]]),
           (''notes'', [])] ''u1'' example_store))) = 1
   \<and> fst (store_in_db example_format True
          [(''Layer1'', [candidate ''name'' ''Bob'' (9 / 10) [(''m1'', ''I am Bob'')],
                         candidate ''age'' ''3'' (1 / 10) [(''m2'', ''he is 3'')],
                         candidate ''name'' ''Al'' (8 / 10) [(''m3'', ''call me Al'')]])]
          ''u1'' (example_store\<lparr>faults := [False, True]\<rparr>))
     = \<lparr>newly_stored_nodes = [(''Layer1'', [candidate ''name'' ''Bob'' (9 / 10) [(''m1'', ''I am Bob'')]])],
        stats = \<lparr>stored = 1, duplicate = 1, low_confidence_rejected = 1\<rparr>\<rparr>
   \<and> memory_nodes (snd (store_in_db example_format True
          [(''Layer1'', [candidate ''name'' ''Bob'' (9 / 10) [(''m1'', ''I am Bob'')],
                         candidate ''age'' ''3'' (1 / 10) [(''m2'', ''he is 3'')],
                         candidate ''name'' ''Al'' (8 / 10) [(''m3'', ''call me Al'')]])]
          ''u1'' (example_store\<lparr>faults := [False, True]\<rparr>)))
     = written_rows example_format ''u1''
         [(''Layer1'', [candidate ''name'' ''Bob'' (9 / 10) [(''m1'', ''I am Bob'')]])]
   \<and> newly_stored_nodes (fst (store_in_db example_format True
          [(''Layer1'', [candidate ''name'' ''Bob'' (9 / 10) [(''m1'', ''I am Bob'')]]),
           (''Layer2'', [])] ''u1'' example_store))
     = [(''Layer1'', [candidate ''name'' ''Bob'' (9 / 10) [(''m1'', ''I am Bob'')]])]
   \<and> stored (stats (fst (store_in_db example_format True
          [(''Layer1'', [candidate ''name'' ''Bob'' (9 / 10) [(''m1'', ''I am Bob'')]]),
           (''Layer2'', [])] ''u1'' example_store))) = 1
   \<and> memory_nodes (snd (store_in_db example_format True
          [(''Layer1'', [candidate ''name'' ''Bob'' (9 / 10) [(''m1'', ''I am Bob'')]]),
           (''Layer2'', [])] ''u1'' example_store))
     = [node_row example_format ''u1'' 1 (candidate ''name'' ''Bob'' (9 / 10) [(''m1'', ''I am Bob'')])]"
proof -
  define bob where "bob = candidate ''name'' ''Bob'' (9 / 10) [(''m1'', ''I am Bob'')]"
  define age where "age = candidate ''age'' ''3'' (1 / 10) [(''m2'', ''he is 3'')]"
  define al where "al = candidate ''name'' ''Al'' (8 / 10) [(''m3'', ''call me Al'')]"
  have cb: "confidence bob = 9 / 10" and ca: "confidence age = 1 / 10"
    and cl: "confidence al = 8 / 10"
    by (simp_all add: bob_def age_def al_def candidate_def)
  let ?W = "[(''Layer1'', [bob, age]), (''Layer2'', [])]"
  let ?X = "[(''Layer1'', [bob]), (''notes'', [])]"
  let ?Y = "[(''Layer1'', [bob, age, al])]"
  let ?Z = "[(''Layer1'', [bob]), (''Layer2'', [])]"
  let ?d = "example_store\<lparr>faults := [False, True]\<rparr>"
  note ev = store_in_db_def layer_numbers store_node_def store_memory_node_def is_connected_def
    request_def example_store_def Let_def get_user_summary_def filter_empty_layers_def
    dict_append_def dict_get_def show_nat_nonempty cb ca cl
  have a: "store_in_db example_format False ?W ''u1'' example_store
     = (\<lparr>newly_stored_nodes = [(''Layer1'', [bob, age])],
         stats = \<lparr>stored = 0, duplicate = 0, low_confidence_rejected = 0\<rparr>\<rparr>, example_store)"
    using store_in_db_fallback_and_failed_inserts[of False example_format ?W "''u1''" example_store]
    by simp
  have k: "layer_number ''notes'' = None" by (simp add: layer_numbers)
  have b: "fst (store_in_db example_format True ?X ''u1'' example_store)
     = \<lparr>newly_stored_nodes = [(''Layer1'', [bob])],
        stats = \<lparr>stored = 0, duplicate = 0, low_confidence_rejected = 0\<rparr>\<rparr>"
    using store_in_db_fallback_and_failed_inserts[of True example_format ?X "''u1''" example_store] k
    by simp
  have b': "length (memory_nodes (snd (store_in_db example_format True ?X ''u1'' example_store))) = 1"
    by (simp add: ev)
  have c0: "fst (store_in_db example_format True ?Y ''u1'' ?d)
     = \<lparr>newly_stored_nodes = [(''Layer1'', [bob])],
        stats = \<lparr>stored = 1, duplicate = 1, low_confidence_rejected = 1\<rparr>\<rparr>"
    by (simp add: ev)
  have hc: "True \<and> distinct (map fst ?Y) \<and> (\<forall>item \<in> set ?Y. layer_number (fst item) \<noteq> None)"
    by (simp add: layer_numbers)
  have c: "memory_nodes (snd (store_in_db example_format True ?Y ''u1'' ?d))
     = written_rows example_format ''u1'' [(''Layer1'', [bob])]"
    using store_in_db_fallback_and_failed_inserts[of True example_format ?Y "''u1''" ?d] hc c0
    by (simp add: Let_def example_store_def)
  have hd: "True \<and> distinct (map fst ?Z)
        \<and> (\<forall>item \<in> set ?Z. layer_number (fst item) \<noteq> None
              \<and> (\<forall>n \<in> set (snd item). 3 / 4 \<le> confidence n))
        \<and> client example_store \<and> faults example_store = []"
    by (simp add: layer_numbers cb example_store_def)
  have d: "newly_stored_nodes (fst (store_in_db example_format True ?Z ''u1'' example_store))
             = [(''Layer1'', [bob])]
     \<and> stored (stats (fst (store_in_db example_format True ?Z ''u1'' example_store))) = 1
     \<and> memory_nodes (snd (store_in_db example_format True ?Z ''u1'' example_store))
         = [node_row example_format ''u1'' 1 bob]"
    using store_in_db_fallback_and_failed_inserts[of True example_format ?Z "''u1''" example_store] hd
    by (simp add: Let_def example_store_def all_nodes_def written_rows_def layer_rows_def
          layer_numbers)
  show ?thesis
    unfolding bob_def[symmetric] age_def[symmetric] al_def[symmetric]
    using a k b b' c0 c d by simp
qed

end
